theory Spec2Isabelle
  imports
    Complex_Main
    "HOL-Library.Multiset"
    "HOL-Library.List_Lexorder"
    "HOL-Library.Char_ord"
    "HOL-Library.Option_ord"
begin

section \<open>The transaction layer of the finance tracker\<close>

text \<open>
  The theory embeds the transaction controller
  (\<^verbatim>\<open>server/controllers/transactionController.js\<close>) and the statics of the
  Transaction model (\<^verbatim>\<open>models/Transaction.js\<close>). The document store is a list of
  transaction documents in insertion order; every store call of the source
  (\<^verbatim>\<open>find\<close>, \<^verbatim>\<open>findOne\<close>, \<^verbatim>\<open>countDocuments\<close>, \<^verbatim>\<open>aggregate\<close>,
  \<^verbatim>\<open>findByIdAndUpdate\<close>, \<^verbatim>\<open>findByIdAndDelete\<close>, \<^verbatim>\<open>deleteMany\<close>) is a function on
  that list. A controller returns the HTTP reply it sends, and the new store when it writes.
\<close>

subsection \<open>Documents\<close>

text \<open>
  An ObjectId is kept in its canonical form, a string of 24 lower-case hexadecimal digits.
  A \<^verbatim>\<open>Date\<close> is its time value in milliseconds; \<open>InvalidDate\<close> is the Date whose
  time value is NaN, which \<^verbatim>\<open>new Date(s)\<close> returns for a string it cannot parse.
  Amounts are rationals (every finite double is one). The accumulators of the store are
  read as the exact sum and average; the subtraction that the summary controller performs
  is a parameter, introduced there.
\<close>

type_synonym oid = string

text \<open>Lower case, for the letters of ASCII.\<close>

definition lower :: "char \<Rightarrow> char" where
  "lower c =
     (case map_of (zip ''ABCDEFGHIJKLMNOPQRSTUVWXYZ'' ''abcdefghijklmnopqrstuvwxyz'') c of
        None \<Rightarrow> c | Some d \<Rightarrow> d)"

datatype jsdate = Time int | InvalidDate

text \<open>
  The fields of \<^verbatim>\<open>transactionSchema\<close> that the queries, pipelines and validators of
  the transaction layer read. \<open>description\<close> and \<open>notes\<close> are optional in the schema.
\<close>

record txn =
  txn_id :: oid
  user :: oid
  txn_type :: string
  amount :: rat
  category :: string
  description :: "string option"
  date :: int
  txn_notes :: "string option"

type_synonym store = "txn list"

subsection \<open>Replies\<close>

text \<open>
  \<open>Success d\<close> is a reply with \<^verbatim>\<open>success: true\<close> and data \<open>d\<close>;
  \<open>Failed status message\<close> is \<^verbatim>\<open>res.status(status).json({success: false, message})\<close>.
  Status 400 is the validation error of the taxonomy, 404 not-found, 500 the generic
  server error of a \<^verbatim>\<open>catch\<close> block.
\<close>

datatype 'a reply = Success 'a | Failed nat string

fun is_validation_error :: "'a reply \<Rightarrow> bool" where
  "is_validation_error (Failed st msg) = (st = 400)"
| "is_validation_error (Success d) = False"

text \<open>What a rejected store call throws.\<close>

datatype store_error = CastError | ValidationError "string list" | MongoServerError

subsection \<open>Pipeline stages: grouping and sorting\<close>

text \<open>
  \<^verbatim>\<open>$group\<close>: one output document per distinct key, holding the documents of that key.
  The store does not specify the order of the groups; the model lists them in the order
  of \<open>remdups\<close>.
\<close>

definition group_by :: "('a \<Rightarrow> 'k) \<Rightarrow> 'a list \<Rightarrow> ('k \<times> 'a list) list" where
  "group_by key xs = map (\<lambda>k. (k, filter (\<lambda>x. key x = k) xs)) (remdups (map key xs))"

text \<open>
  \<^verbatim>\<open>$sort\<close> of a pipeline: an insertion sort under the comparison \<open>le\<close>. The store does
  not specify the order of groups that tie; the statements about the pipelines do not
  depend on it.
\<close>

fun insort_by :: "('a \<Rightarrow> 'a \<Rightarrow> bool) \<Rightarrow> 'a \<Rightarrow> 'a list \<Rightarrow> 'a list" where
  "insort_by le x [] = [x]"
| "insort_by le x (y # ys) = (if le x y then x # y # ys else y # insort_by le x ys)"

definition sort_by :: "('a \<Rightarrow> 'a \<Rightarrow> bool) \<Rightarrow> 'a list \<Rightarrow> 'a list" where
  "sort_by le xs = foldr (insort_by le) xs []"

text \<open>The accumulators \<^verbatim>\<open>$sum: '$amount'\<close>, \<^verbatim>\<open>$sum: 1\<close> and \<^verbatim>\<open>$avg: '$amount'\<close>.\<close>

record 'k grp =
  g_id :: 'k
  total :: rat
  count :: nat
  avgAmount :: rat

definition mk_grp :: "'k \<times> txn list \<Rightarrow> 'k grp" where
  "mk_grp kg = \<lparr> g_id = fst kg,
                 total = sum_list (map amount (snd kg)),
                 count = length (snd kg),
                 avgAmount = sum_list (map amount (snd kg)) / of_nat (length (snd kg)) \<rparr>"

subsection \<open>The aggregation statics of the model\<close>

text \<open>
  A query parameter holding a date is given by what the source does with it: \<open>None\<close> when
  the parameter is falsy (absent, or the empty string), \<open>Some d\<close> when it is a non-empty
  string \<open>s\<close> and \<^verbatim>\<open>new Date(s)\<close> is \<open>d\<close>.

  \<^verbatim>\<open>matchStage\<close>: the user always, the type for the category breakdown, and the date
  range only under \<^verbatim>\<open>if (startDate && endDate)\<close>.
\<close>

record match_stage =
  m_user :: oid
  m_type :: "string option"
  m_date :: "(jsdate \<times> jsdate) option"

text \<open>
  Mongoose does not cast an aggregation pipeline; the driver writes the NaN time value of an
  invalid Date as 0.
\<close>

fun stored_time :: "jsdate \<Rightarrow> int" where
  "stored_time (Time t) = t"
| "stored_time InvalidDate = 0"

definition stage_matches :: "match_stage \<Rightarrow> txn \<Rightarrow> bool" where
  "stage_matches m t =
     (user t = m_user m
      \<and> (case m_type m of None \<Rightarrow> True | Some ty \<Rightarrow> txn_type t = ty)
      \<and> (case m_date m of None \<Rightarrow> True
          | Some (lo, hi) \<Rightarrow> stored_time lo \<le> date t \<and> date t \<le> stored_time hi))"

definition date_range :: "jsdate option \<Rightarrow> jsdate option \<Rightarrow> (jsdate \<times> jsdate) option" where
  "date_range startDate endDate =
     (case (startDate, endDate) of (Some lo, Some hi) \<Rightarrow> Some (lo, hi) | _ \<Rightarrow> None)"

definition summary_stage :: "oid \<Rightarrow> jsdate option \<Rightarrow> jsdate option \<Rightarrow> match_stage" where
  "summary_stage userId startDate endDate =
     \<lparr> m_user = userId, m_type = None, m_date = date_range startDate endDate \<rparr>"

definition Transaction_getUserSummary :: "store \<Rightarrow> oid \<Rightarrow> jsdate option \<Rightarrow> jsdate option \<Rightarrow> string grp list" where
  "Transaction_getUserSummary db userId startDate endDate =
     map mk_grp (group_by txn_type (filter (stage_matches (summary_stage userId startDate endDate)) db))"

definition breakdown_stage :: "oid \<Rightarrow> string \<Rightarrow> jsdate option \<Rightarrow> jsdate option \<Rightarrow> match_stage" where
  "breakdown_stage userId ty startDate endDate =
     \<lparr> m_user = userId, m_type = Some ty, m_date = date_range startDate endDate \<rparr>"

definition total_desc :: "'k grp \<Rightarrow> 'k grp \<Rightarrow> bool" where
  "total_desc a b = (total b \<le> total a)"

definition Transaction_getCategoryBreakdown ::
  "store \<Rightarrow> oid \<Rightarrow> string \<Rightarrow> jsdate option \<Rightarrow> jsdate option \<Rightarrow> string grp list" where
  "Transaction_getCategoryBreakdown db userId ty startDate endDate =
     sort_by total_desc
       (map mk_grp (group_by category
          (filter (stage_matches (breakdown_stage userId ty startDate endDate)) db)))"

subsection \<open>The summary controller\<close>

record summary =
  income :: rat
  expense :: rat
  balance :: rat
  incomeCount :: nat
  expenseCount :: nat
  totalTransactions :: nat

definition formattedSummary0 :: summary where
  "formattedSummary0 =
     \<lparr> income = 0, expense = 0, balance = 0,
       incomeCount = 0, expenseCount = 0, totalTransactions = 0 \<rparr>"

text \<open>The body of \<^verbatim>\<open>summary.forEach\<close>, on the summary object it mutates.\<close>

definition summary_item :: "string grp \<Rightarrow> summary \<Rightarrow> summary" where
  "summary_item item fs =
     (if g_id item = ''income'' then fs\<lparr> income := total item, incomeCount := count item \<rparr>
      else if g_id item = ''expense'' then fs\<lparr> expense := total item, expenseCount := count item \<rparr>
      else fs)"

text \<open>
  The totals arrive from the store as doubles, and \<^verbatim>\<open>income - expense\<close> is the subtraction
  of the runtime on doubles, which rounds. It is a parameter: \<open>sub a b\<close> is the double that
  \<^verbatim>\<open>a - b\<close> evaluates to. The counts are integers, which the runtime adds exactly.
\<close>

type_synonym js_minus = "rat \<Rightarrow> rat \<Rightarrow> rat"

definition format_summary :: "js_minus \<Rightarrow> string grp list \<Rightarrow> summary" where
  "format_summary sub items =
     (let fs = fold summary_item items formattedSummary0;
          fs = fs\<lparr> balance := sub (income fs) (expense fs) \<rparr>
      in fs\<lparr> totalTransactions := incomeCount fs + expenseCount fs \<rparr>)"

definition getTransactionSummary ::
  "js_minus \<Rightarrow> store \<Rightarrow> oid \<Rightarrow> jsdate option \<Rightarrow> jsdate option \<Rightarrow> summary reply" where
  "getTransactionSummary sub db uid startDate endDate =
     Success (format_summary sub (Transaction_getUserSummary db uid startDate endDate))"


subsection \<open>The category breakdown controller\<close>

definition getCategoryBreakdown ::
  "store \<Rightarrow> oid \<Rightarrow> string \<Rightarrow> jsdate option \<Rightarrow> jsdate option \<Rightarrow> string grp list reply" where
  "getCategoryBreakdown db uid ty startDate endDate =
     (if ty \<notin> set [''income'', ''expense'']
      then Failed 400 ''Type must be either income or expense''
      else Success (Transaction_getCategoryBreakdown db uid ty startDate endDate))"

subsection \<open>Monthly trends\<close>

text \<open>
  The calendar of the runtime and of the store is a parameter: \<open>now\<close> is the time value of
  \<^verbatim>\<open>new Date()\<close>, \<open>minus_months d n\<close> the Date that
  \<^verbatim>\<open>d.setMonth(d.getMonth() - n)\<close> leaves in \<open>d\<close> (invalid when it falls outside the range
  of a Date), \<open>year_of\<close> and \<open>month_of\<close> the operators \<^verbatim>\<open>$year\<close> and \<^verbatim>\<open>$month\<close>.
\<close>

record calendar =
  now :: int
  minus_months :: "int \<Rightarrow> int \<Rightarrow> jsdate"
  year_of :: "int \<Rightarrow> int"
  month_of :: "int \<Rightarrow> int"

record trend =
  tr_year :: int
  tr_month :: int
  tr_type :: string
  tr_total :: rat
  tr_count :: nat

definition trend_key :: "calendar \<Rightarrow> txn \<Rightarrow> int \<times> int \<times> string" where
  "trend_key cal t = (year_of cal (date t), month_of cal (date t), txn_type t)"

definition mk_trend :: "(int \<times> int \<times> string) \<times> txn list \<Rightarrow> trend" where
  "mk_trend kg = \<lparr> tr_year = fst (fst kg), tr_month = fst (snd (fst kg)),
                   tr_type = snd (snd (fst kg)),
                   tr_total = sum_list (map amount (snd kg)),
                   tr_count = length (snd kg) \<rparr>"

text \<open>\<^verbatim>\<open>$sort: {'_id.year': 1, '_id.month': 1, '_id.type': 1}\<close>; strings compare bytewise.\<close>

definition trend_le :: "trend \<Rightarrow> trend \<Rightarrow> bool" where
  "trend_le a b =
     (tr_year a < tr_year b
      \<or> (tr_year a = tr_year b
          \<and> (tr_month a < tr_month b
              \<or> (tr_month a = tr_month b \<and> tr_type a \<le> tr_type b))))"

definition trend_matches :: "oid \<Rightarrow> jsdate \<Rightarrow> txn \<Rightarrow> bool" where
  "trend_matches userId startDate t = (user t = userId \<and> stored_time startDate \<le> date t)"

definition Transaction_getMonthlyTrends :: "calendar \<Rightarrow> store \<Rightarrow> oid \<Rightarrow> int \<Rightarrow> trend list" where
  "Transaction_getMonthlyTrends cal db userId months =
     (let startDate = minus_months cal (now cal) months
      in sort_by trend_le
           (map mk_trend (group_by (trend_key cal) (filter (trend_matches userId startDate) db))))"

text \<open>
  \<open>months\<close> is \<open>None\<close> when the query has no \<^verbatim>\<open>months\<close> (the default 12 applies) and
  \<open>Some n\<close> when \<^verbatim>\<open>parseInt(months)\<close> is the integer \<open>n\<close>.
\<close>

definition getMonthlyTrends :: "calendar \<Rightarrow> store \<Rightarrow> oid \<Rightarrow> int option \<Rightarrow> trend list reply" where
  "getMonthlyTrends cal db uid months =
     Success (Transaction_getMonthlyTrends cal db uid (case months of None \<Rightarrow> 12 | Some n \<Rightarrow> n))"

subsection \<open>The list controller\<close>

text \<open>
  \<^verbatim>\<open>req.query\<close>. \<open>q_page\<close> and \<open>q_limit\<close> are \<open>None\<close> when absent (defaults 1 and 10)
  and \<open>Some n\<close> when \<^verbatim>\<open>parseInt\<close> of the parameter is the natural number \<open>n\<close>; the
  string parameters are \<open>None\<close> when absent; the dates are as for the pipelines.
\<close>

record req_query =
  q_page :: "nat option"
  q_limit :: "nat option"
  q_type :: "string option"
  q_category :: "string option"
  q_startDate :: "jsdate option"
  q_endDate :: "jsdate option"
  q_search :: "string option"
  q_sortBy :: "string option"
  q_sortOrder :: "string option"

text \<open>JavaScript truthiness of a string parameter: present and not empty.\<close>

fun truthy :: "string option \<Rightarrow> bool" where
  "truthy None = False"
| "truthy (Some s) = (s \<noteq> [])"

text \<open>
  The filter object \<^verbatim>\<open>query\<close>: \<open>f_category\<close> is the pattern of
  \<^verbatim>\<open>{$regex: category, $options: 'i'}\<close>, \<open>f_or\<close> the one pattern of the three
  alternatives of \<^verbatim>\<open>$or\<close>.
\<close>

record filter_doc =
  f_user :: oid
  f_type :: "string option"
  f_category :: "string option"
  f_gte :: "jsdate option"
  f_lte :: "jsdate option"
  f_or :: "string option"

text \<open>
  \<^verbatim>\<open>if (type && ['income', 'expense'].includes(type))\<close> and
  \<^verbatim>\<open>if (category)\<close>, \<^verbatim>\<open>if (search)\<close>: the term the parameter adds to the filter, if any.
\<close>

definition type_term :: "string option \<Rightarrow> string option" where
  "type_term ty =
     (if truthy ty \<and> the ty \<in> set [''income'', ''expense''] then ty else None)"

definition pattern_term :: "string option \<Rightarrow> string option" where
  "pattern_term p = (if truthy p then p else None)"

definition build_query :: "oid \<Rightarrow> req_query \<Rightarrow> filter_doc" where
  "build_query uid q =
     \<lparr> f_user = uid,
       f_type = type_term (q_type q),
       f_category = pattern_term (q_category q),
       f_gte = q_startDate q,
       f_lte = q_endDate q,
       f_or = pattern_term (q_search q) \<rparr>"

text \<open>
  The regular-expression engine of the store is a parameter: \<open>rx p\<close> is \<open>None\<close> when the
  store rejects the pattern \<open>p\<close>, and otherwise the test "the pattern, under option
  \<^verbatim>\<open>i\<close>, matches somewhere in the string". A field the document does not have matches no
  pattern.
\<close>

type_synonym regex_engine = "string \<Rightarrow> (string \<Rightarrow> bool) option"

definition rx_test :: "regex_engine \<Rightarrow> string \<Rightarrow> string option \<Rightarrow> bool" where
  "rx_test rx p fld = (case (rx p, fld) of (Some m, Some s) \<Rightarrow> m s | _ \<Rightarrow> False)"

definition doc_matches :: "regex_engine \<Rightarrow> filter_doc \<Rightarrow> txn \<Rightarrow> bool" where
  "doc_matches rx f t =
     (user t = f_user f
      \<and> (case f_type f of None \<Rightarrow> True | Some ty \<Rightarrow> txn_type t = ty)
      \<and> (case f_category f of None \<Rightarrow> True | Some p \<Rightarrow> rx_test rx p (Some (category t)))
      \<and> (case f_gte f of None \<Rightarrow> True | Some d \<Rightarrow> stored_time d \<le> date t)
      \<and> (case f_lte f of None \<Rightarrow> True | Some d \<Rightarrow> date t \<le> stored_time d)
      \<and> (case f_or f of None \<Rightarrow> True
          | Some p \<Rightarrow> rx_test rx p (description t) \<or> rx_test rx p (Some (category t))
                      \<or> rx_test rx p (txn_notes t)))"

text \<open>
  Mongoose casts the filter of \<^verbatim>\<open>find\<close> and \<^verbatim>\<open>countDocuments\<close> to the schema and throws
  a CastError for an invalid Date; the store rejects a pattern it cannot compile.
\<close>

definition check_filter :: "regex_engine \<Rightarrow> filter_doc \<Rightarrow> store_error option" where
  "check_filter rx f =
     (if f_gte f = Some InvalidDate \<or> f_lte f = Some InvalidDate then Some CastError
      else if (case f_category f of None \<Rightarrow> False | Some p \<Rightarrow> rx p = None)
              \<or> (case f_or f of None \<Rightarrow> False | Some p \<Rightarrow> rx p = None)
           then Some MongoServerError
      else None)"

definition find_docs :: "regex_engine \<Rightarrow> filter_doc \<Rightarrow> store \<Rightarrow> store_error + txn list" where
  "find_docs rx f db =
     (case check_filter rx f of Some e \<Rightarrow> Inl e | None \<Rightarrow> Inr (filter (doc_matches rx f) db))"

definition countDocuments :: "regex_engine \<Rightarrow> filter_doc \<Rightarrow> store \<Rightarrow> store_error + nat" where
  "countDocuments rx f db =
     (case check_filter rx f of Some e \<Rightarrow> Inl e
      | None \<Rightarrow> Inr (length (filter (doc_matches rx f) db)))"

text \<open>
  The store's order on a sort key is a parameter: \<open>ord f a b\<close> says that under the
  ascending order of the store on the key \<open>f\<close> the document \<open>a\<close> does not come after
  \<open>b\<close>. The key is any string of the request; the order may rest on fields of the schema
  that the model does not carry (the \<^verbatim>\<open>_id\<close> identifies the stored document).
\<close>

type_synonym doc_order = "string \<Rightarrow> txn \<Rightarrow> txn \<Rightarrow> bool"

text \<open>
  The sort of one \<^verbatim>\<open>find\<close> call is a parameter as well: \<open>srt le docs\<close> is the sequence in
  which the store returns \<open>docs\<close> under the comparison \<open>le\<close>. The store promises no order
  among documents that tie, and none that is the same in two calls.
\<close>

type_synonym store_sort = "(txn \<Rightarrow> txn \<Rightarrow> bool) \<Rightarrow> txn list \<Rightarrow> txn list"

text \<open>\<^verbatim>\<open>sortOptions[sortBy] = sortOrder === 'desc' ? -1 : 1\<close>, with the defaults.\<close>

definition sort_cmp :: "doc_order \<Rightarrow> string option \<Rightarrow> string option \<Rightarrow> txn \<Rightarrow> txn \<Rightarrow> bool" where
  "sort_cmp ord sortBy sortOrder =
     (let f = (case sortBy of None \<Rightarrow> ''date'' | Some s \<Rightarrow> s);
          dir = (case sortOrder of None \<Rightarrow> ''desc'' | Some s \<Rightarrow> s)
      in if dir = ''desc'' then (\<lambda>a b. ord f b a) else ord f)"

text \<open>
  \<^verbatim>\<open>.skip(skip).limit(limit)\<close>: the store rejects a negative skip, and reads a limit of 0
  as no limit.
\<close>

definition skip_limit :: "int \<Rightarrow> nat \<Rightarrow> 'a list \<Rightarrow> store_error + 'a list" where
  "skip_limit skip limit xs =
     (if skip < 0 then Inl MongoServerError
      else Inr (if limit = 0 then drop (nat skip) xs else take limit (drop (nat skip) xs)))"

definition find_page ::
  "regex_engine \<Rightarrow> store_sort \<Rightarrow> filter_doc \<Rightarrow> (txn \<Rightarrow> txn \<Rightarrow> bool) \<Rightarrow> int \<Rightarrow> nat \<Rightarrow> store
     \<Rightarrow> store_error + txn list" where
  "find_page rx srt f cmp skip limit db =
     (case find_docs rx f db of Inl e \<Rightarrow> Inl e
      | Inr docs \<Rightarrow> skip_limit skip limit (srt cmp docs))"

text \<open>A JavaScript number that need not be an integer: the value of \<^verbatim>\<open>Math.ceil(total / limit)\<close>.\<close>

datatype jsnum = Num int | Infinity | NaN

definition ceil_div :: "nat \<Rightarrow> nat \<Rightarrow> jsnum" where
  "ceil_div n limit =
     (if limit = 0 then (if n = 0 then NaN else Infinity)
      else Num \<lceil>(of_nat n :: rat) / of_nat limit\<rceil>)"

fun js_less :: "int \<Rightarrow> jsnum \<Rightarrow> bool" where
  "js_less n (Num k) = (n < k)"
| "js_less n Infinity = True"
| "js_less n NaN = False"

record pagination =
  currentPage :: nat
  totalPages :: jsnum
  totalItems :: nat
  itemsPerPage :: nat
  hasNextPage :: bool
  hasPrevPage :: bool

record list_reply =
  data :: "txn list"
  pagination :: pagination

definition getTransactions ::
  "regex_engine \<Rightarrow> doc_order \<Rightarrow> store_sort \<Rightarrow> store \<Rightarrow> oid \<Rightarrow> req_query \<Rightarrow> list_reply reply" where
  "getTransactions rx ord srt db uid q =
     (let page = (case q_page q of None \<Rightarrow> 1 | Some n \<Rightarrow> n);
          limit = (case q_limit q of None \<Rightarrow> 10 | Some n \<Rightarrow> n);
          query = build_query uid q;
          sortOptions = sort_cmp ord (q_sortBy q) (q_sortOrder q);
          skip = (int page - 1) * int limit
      in case find_page rx srt query sortOptions skip limit db of
           Inl e \<Rightarrow> Failed 500 ''Server error fetching transactions''
         | Inr transactions \<Rightarrow>
             (case countDocuments rx query db of
                Inl e \<Rightarrow> Failed 500 ''Server error fetching transactions''
              | Inr n \<Rightarrow>
                  Success \<lparr> data = transactions,
                            pagination =
                              \<lparr> currentPage = page,
                                totalPages = ceil_div n limit,
                                totalItems = n,
                                itemsPerPage = limit,
                                hasNextPage = js_less (int page) (ceil_div n limit),
                                hasPrevPage = (page > 1) \<rparr> \<rparr>))"

subsection \<open>Store calls by id\<close>

text \<open>
  A request carries an id as a string. The driver's reading of a string as an ObjectId is a
  parameter: \<open>cast s\<close> is the ObjectId the string denotes, \<open>None\<close> when it denotes none.
  \<^verbatim>\<open>ObjectId.isValid\<close> tests this, and Mongoose throws a CastError when it must cast a
  string that denotes none to the \<^verbatim>\<open>_id\<close> or \<^verbatim>\<open>user\<close> path.
\<close>

type_synonym oid_reader = "string \<Rightarrow> oid option"

definition isValid :: "oid_reader \<Rightarrow> string \<Rightarrow> bool" where
  "isValid cast s = (cast s \<noteq> None)"

text \<open>
  The filter of a store call by id: \<open>i_ids\<close> are the strings of \<^verbatim>\<open>_id: id\<close> or
  \<^verbatim>\<open>_id: {$in: ids}\<close>, and \<open>i_user\<close> the \<^verbatim>\<open>user\<close> term when the filter has one.
  \<^verbatim>\<open>findById...(id)\<close> is the call with the filter \<^verbatim>\<open>{_id: id}\<close>.
\<close>

record id_filter =
  i_ids :: "string list"
  i_user :: "oid option"

definition id_matches :: "oid_reader \<Rightarrow> id_filter \<Rightarrow> txn \<Rightarrow> bool" where
  "id_matches cast i t =
     (Some (txn_id t) \<in> set (map cast (i_ids i))
      \<and> (case i_user i of None \<Rightarrow> True | Some u \<Rightarrow> user t = u))"

definition owned_by_id :: "string \<Rightarrow> oid \<Rightarrow> id_filter" where
  "owned_by_id id0 uid = \<lparr> i_ids = [id0], i_user = Some uid \<rparr>"

definition by_id :: "string \<Rightarrow> id_filter" where
  "by_id id0 = \<lparr> i_ids = [id0], i_user = None \<rparr>"

definition findOne :: "oid_reader \<Rightarrow> id_filter \<Rightarrow> store \<Rightarrow> store_error + txn option" where
  "findOne cast i db =
     (if \<not> list_all (isValid cast) (i_ids i) then Inl CastError
      else Inr (find (id_matches cast i) db))"

text \<open>\<^verbatim>\<open>req.body\<close> of an update: \<open>None\<close> where the body does not have the field.\<close>

record body =
  b_user :: "string option"
  b_type :: "string option"
  b_amount :: "rat option"
  b_category :: "string option"
  b_description :: "string option"
  b_date :: "jsdate option"
  b_notes :: "string option"

text \<open>The setter \<^verbatim>\<open>trim: true\<close> of the schema, on ASCII white space.\<close>

definition white :: "char \<Rightarrow> bool" where
  "white c = (c \<in> set [CHR '' '', CHR 0x09, CHR 0x0A, CHR 0x0B, CHR 0x0C, CHR 0x0D])"

definition trim :: "string \<Rightarrow> string" where
  "trim s = rev (dropWhile white (rev (dropWhile white s)))"

text \<open>
  The validators of the schema that \<^verbatim>\<open>runValidators: true\<close> runs on the paths the update
  sets; the result lists the paths that fail.
\<close>

definition validate_update :: "body \<Rightarrow> string list" where
  "validate_update b =
     (case b_type b of None \<Rightarrow> []
      | Some ty \<Rightarrow> if ty \<in> set [''income'', ''expense''] then [] else [''type''])
     @ (case b_amount b of None \<Rightarrow> []
        | Some a \<Rightarrow> if 1 / 100 \<le> a \<and> a \<le> 1000000 then [] else [''amount''])
     @ (case b_category b of None \<Rightarrow> []
        | Some c \<Rightarrow> if trim c \<noteq> [] \<and> length (trim c) \<le> 50 then [] else [''category''])
     @ (case b_description b of None \<Rightarrow> []
        | Some d \<Rightarrow> if length (trim d) \<le> 200 then [] else [''description''])
     @ (case b_notes b of None \<Rightarrow> []
        | Some n \<Rightarrow> if length (trim n) \<le> 500 then [] else [''notes''])"

text \<open>The update \<^verbatim>\<open>$set\<close>s every field the body has, \<^verbatim>\<open>user\<close> among them.\<close>

definition apply_update :: "oid_reader \<Rightarrow> body \<Rightarrow> txn \<Rightarrow> txn" where
  "apply_update cast b t =
     t\<lparr> user := (case b_user b of None \<Rightarrow> user t | Some u \<Rightarrow> the (cast u)),
        txn_type := (case b_type b of None \<Rightarrow> txn_type t | Some ty \<Rightarrow> ty),
        amount := (case b_amount b of None \<Rightarrow> amount t | Some a \<Rightarrow> a),
        category := (case b_category b of None \<Rightarrow> category t | Some c \<Rightarrow> trim c),
        description := (case b_description b of None \<Rightarrow> description t | Some d \<Rightarrow> Some (trim d)),
        date := (case b_date b of None \<Rightarrow> date t | Some d \<Rightarrow> stored_time d),
        txn_notes := (case b_notes b of None \<Rightarrow> txn_notes t | Some n \<Rightarrow> Some (trim n)) \<rparr>"

text \<open>The first document the test holds for, replaced or removed.\<close>

fun update_first :: "('a \<Rightarrow> bool) \<Rightarrow> ('a \<Rightarrow> 'a) \<Rightarrow> 'a list \<Rightarrow> 'a list" where
  "update_first P f [] = []"
| "update_first P f (x # xs) = (if P x then f x # xs else x # update_first P f xs)"

fun remove_first :: "('a \<Rightarrow> bool) \<Rightarrow> 'a list \<Rightarrow> 'a list" where
  "remove_first P [] = []"
| "remove_first P (x # xs) = (if P x then xs else x # remove_first P xs)"

text \<open>
  \<^verbatim>\<open>findByIdAndUpdate(id, body, {new: true, runValidators: true})\<close>: the id and the body
  are cast, the validators run, and the document of that id, if there is one, is updated
  and returned.
\<close>

definition findByIdAndUpdate ::
  "oid_reader \<Rightarrow> string \<Rightarrow> body \<Rightarrow> store \<Rightarrow> store_error + (txn option \<times> store)" where
  "findByIdAndUpdate cast id0 b db =
     (if \<not> isValid cast id0 then Inl CastError
      else if (case b_user b of None \<Rightarrow> False | Some u \<Rightarrow> \<not> isValid cast u)
              \<or> b_date b = Some InvalidDate
           then Inl CastError
      else if validate_update b \<noteq> [] then Inl (ValidationError (validate_update b))
      else Inr (map_option (apply_update cast b) (find (id_matches cast (by_id id0)) db),
                update_first (id_matches cast (by_id id0)) (apply_update cast b) db))"

definition findByIdAndDelete ::
  "oid_reader \<Rightarrow> string \<Rightarrow> store \<Rightarrow> store_error + (txn option \<times> store)" where
  "findByIdAndDelete cast id0 db =
     (if \<not> isValid cast id0 then Inl CastError
      else Inr (find (id_matches cast (by_id id0)) db,
                remove_first (id_matches cast (by_id id0)) db))"

definition deleteMany :: "oid_reader \<Rightarrow> id_filter \<Rightarrow> store \<Rightarrow> store_error + (nat \<times> store)" where
  "deleteMany cast i db =
     (if \<not> list_all (isValid cast) (i_ids i) then Inl CastError
      else Inr (length (filter (id_matches cast i) db),
                filter (\<lambda>t. \<not> id_matches cast i t) db))"

subsection \<open>The controllers that read or write one transaction, and bulk delete\<close>

definition getTransaction :: "oid_reader \<Rightarrow> store \<Rightarrow> oid \<Rightarrow> string \<Rightarrow> txn reply" where
  "getTransaction cast db uid id0 =
     (case findOne cast (owned_by_id id0 uid) db of
        Inl e \<Rightarrow> Failed 500 ''Server error fetching transaction''
      | Inr None \<Rightarrow> Failed 404 ''Transaction not found''
      | Inr (Some transaction) \<Rightarrow> Success transaction)"

definition updateTransaction ::
  "oid_reader \<Rightarrow> store \<Rightarrow> oid \<Rightarrow> string \<Rightarrow> body \<Rightarrow> txn option reply \<times> store" where
  "updateTransaction cast db uid id0 b =
     (case findOne cast (owned_by_id id0 uid) db of
        Inl e \<Rightarrow> (Failed 500 ''Server error updating transaction'', db)
      | Inr None \<Rightarrow> (Failed 404 ''Transaction not found'', db)
      | Inr (Some found) \<Rightarrow>
          (case findByIdAndUpdate cast id0 b db of
             Inl (ValidationError errors) \<Rightarrow> (Failed 400 ''Validation failed'', db)
           | Inl e \<Rightarrow> (Failed 500 ''Server error updating transaction'', db)
           | Inr (transaction, db') \<Rightarrow> (Success transaction, db')))"

definition deleteTransaction ::
  "oid_reader \<Rightarrow> store \<Rightarrow> oid \<Rightarrow> string \<Rightarrow> unit reply \<times> store" where
  "deleteTransaction cast db uid id0 =
     (case findOne cast (owned_by_id id0 uid) db of
        Inl e \<Rightarrow> (Failed 500 ''Server error deleting transaction'', db)
      | Inr None \<Rightarrow> (Failed 404 ''Transaction not found'', db)
      | Inr (Some found) \<Rightarrow>
          (case findByIdAndDelete cast id0 db of
             Inl e \<Rightarrow> (Failed 500 ''Server error deleting transaction'', db)
           | Inr (removed, db') \<Rightarrow> (Success (), db')))"

text \<open>
  \<open>transactionIds\<close> is \<open>None\<close> when the body has no array under that name. The data of the
  reply is \<^verbatim>\<open>deletedCount\<close>.
\<close>

definition bulkDeleteTransactions ::
  "oid_reader \<Rightarrow> store \<Rightarrow> oid \<Rightarrow> string list option \<Rightarrow> nat reply \<times> store" where
  "bulkDeleteTransactions cast db uid transactionIds =
     (case transactionIds of
        None \<Rightarrow> (Failed 400 ''Please provide an array of transaction IDs'', db)
      | Some ids \<Rightarrow>
          if length ids = 0 then (Failed 400 ''Please provide an array of transaction IDs'', db)
          else let validIds = filter (isValid cast) ids
               in if length validIds \<noteq> length ids
                  then (Failed 400 ''Some transaction IDs are invalid'', db)
                  else (case deleteMany cast \<lparr> i_ids = validIds, i_user = Some uid \<rparr> db of
                          Inl e \<Rightarrow> (Failed 500 ''Server error deleting transactions'', db)
                        | Inr (deletedCount, db') \<Rightarrow> (Success deletedCount, db')))"

subsection \<open>Reference notions for the statements\<close>

definition of_type :: "string \<Rightarrow> txn list \<Rightarrow> txn list" where
  "of_type k xs = filter (\<lambda>t. txn_type t = k) xs"

definition summary_matched :: "store \<Rightarrow> oid \<Rightarrow> jsdate option \<Rightarrow> jsdate option \<Rightarrow> txn list" where
  "summary_matched db uid startDate endDate =
     filter (stage_matches (summary_stage uid startDate endDate)) db"

text \<open>
  The scope of a summary: the transactions of the user, and within the date range when the
  request has one (the two bounds, as time values).
\<close>

fun in_scope :: "oid \<Rightarrow> (int \<times> int) option \<Rightarrow> txn \<Rightarrow> bool" where
  "in_scope uid None t = (user t = uid)"
| "in_scope uid (Some (a, b)) t = (user t = uid \<and> a \<le> date t \<and> date t \<le> b)"

definition range_start :: "(int \<times> int) option \<Rightarrow> jsdate option" where
  "range_start r = map_option (\<lambda>p. Time (fst p)) r"

definition range_end :: "(int \<times> int) option \<Rightarrow> jsdate option" where
  "range_end r = map_option (\<lambda>p. Time (snd p)) r"

text \<open>The group of a type in the output of the summary pipeline, if there is one.\<close>

definition group_of :: "string \<Rightarrow> string grp list \<Rightarrow> string grp option" where
  "group_of k gs = find (\<lambda>g. g_id g = k) gs"

definition breakdown_matched ::
  "store \<Rightarrow> oid \<Rightarrow> string \<Rightarrow> jsdate option \<Rightarrow> jsdate option \<Rightarrow> txn list" where
  "breakdown_matched db uid ty startDate endDate =
     filter (stage_matches (breakdown_stage uid ty startDate endDate)) db"

definition of_category :: "string \<Rightarrow> txn list \<Rightarrow> txn list" where
  "of_category c xs = filter (\<lambda>t. category t = c) xs"

definition owned :: "oid \<Rightarrow> txn \<Rightarrow> bool" where
  "owned uid t = (user t = uid)"

definition in_range :: "oid \<Rightarrow> int \<Rightarrow> int \<Rightarrow> txn \<Rightarrow> bool" where
  "in_range uid a b t = (user t = uid \<and> a \<le> date t \<and> date t \<le> b)"

text \<open>A comparison under which any two documents compare, transitively.\<close>

definition total_preorder :: "('a \<Rightarrow> 'a \<Rightarrow> bool) \<Rightarrow> bool" where
  "total_preorder le = ((\<forall>a b. le a b \<or> le b a) \<and> (\<forall>a b c. le a b \<longrightarrow> le b c \<longrightarrow> le a c))"

definition months_of :: "int option \<Rightarrow> int" where
  "months_of months = (case months of None \<Rightarrow> 12 | Some n \<Rightarrow> n)"

definition tr_key :: "trend \<Rightarrow> int \<times> int \<times> string" where
  "tr_key g = (tr_year g, tr_month g, tr_type g)"

text \<open>The documents of a user, not older than the cutoff, that fall under the key of a group.\<close>

definition trend_members :: "calendar \<Rightarrow> store \<Rightarrow> oid \<Rightarrow> int \<Rightarrow> trend \<Rightarrow> txn list" where
  "trend_members cal db uid cutoff g =
     filter (\<lambda>t. user t = uid \<and> cutoff \<le> date t
                \<and> year_of cal (date t) = tr_year g \<and> month_of cal (date t) = tr_month g
                \<and> txn_type t = tr_type g) db"

text \<open>The page and the page size of a request, with the defaults.\<close>

definition page_of :: "req_query \<Rightarrow> nat" where
  "page_of q = (case q_page q of None \<Rightarrow> 1 | Some n \<Rightarrow> n)"

definition limit_of :: "req_query \<Rightarrow> nat" where
  "limit_of q = (case q_limit q of None \<Rightarrow> 10 | Some n \<Rightarrow> n)"

text \<open>
  The documents the filter of a list request matches, its sort key, its comparison, and
  the sequence in which a call with the sort \<open>srt\<close> returns the matching documents.
\<close>

definition list_matching :: "regex_engine \<Rightarrow> store \<Rightarrow> oid \<Rightarrow> req_query \<Rightarrow> txn list" where
  "list_matching rx db uid q = filter (doc_matches rx (build_query uid q)) db"

definition sort_key :: "req_query \<Rightarrow> string" where
  "sort_key q = (case q_sortBy q of None \<Rightarrow> ''date'' | Some s \<Rightarrow> s)"

definition list_cmp :: "doc_order \<Rightarrow> req_query \<Rightarrow> txn \<Rightarrow> txn \<Rightarrow> bool" where
  "list_cmp ord q = sort_cmp ord (q_sortBy q) (q_sortOrder q)"

definition sorted_matching ::
  "regex_engine \<Rightarrow> doc_order \<Rightarrow> store_sort \<Rightarrow> store \<Rightarrow> oid \<Rightarrow> req_query \<Rightarrow> txn list" where
  "sorted_matching rx ord srt db uid q = srt (list_cmp ord q) (list_matching rx db uid q)"

text \<open>
  What the store does promise of a sort: the result is a permutation of the documents, and
  it is sorted when the comparison is a total preorder.
\<close>

definition sorts :: "store_sort \<Rightarrow> bool" where
  "sorts srt =
     (\<forall>le xs. mset (srt le xs) = mset xs \<and> (total_preorder le \<longrightarrow> sorted_wrt le (srt le xs)))"

text \<open>A stable sort key: no two of the documents tie under the comparison.\<close>

definition no_ties :: "('a \<Rightarrow> 'a \<Rightarrow> bool) \<Rightarrow> 'a list \<Rightarrow> bool" where
  "no_ties le xs = (\<forall>a\<in>set xs. \<forall>b\<in>set xs. le a b \<longrightarrow> le b a \<longrightarrow> a = b)"

text \<open>
  The data of page \<open>k\<close> of a request, fetched by a call of its own with the sort \<open>srt\<close>
  (empty when the request fails).
\<close>

definition page_data ::
  "regex_engine \<Rightarrow> doc_order \<Rightarrow> store_sort \<Rightarrow> store \<Rightarrow> oid \<Rightarrow> req_query \<Rightarrow> nat \<Rightarrow> txn list" where
  "page_data rx ord srt db uid q k =
     (case getTransactions rx ord srt db uid (q\<lparr> q_page := Some k \<rparr>) of
        Success r \<Rightarrow> data r | Failed st msg \<Rightarrow> [])"

text \<open>\<open>occurs_in p s\<close>: the list \<open>p\<close> is a contiguous part of \<open>s\<close>;
  \<open>ci_occurs\<close>: the same, ignoring case.\<close>

fun starts_with :: "'a list \<Rightarrow> 'a list \<Rightarrow> bool" where
  "starts_with [] s = True"
| "starts_with (p # ps) [] = False"
| "starts_with (p # ps) (c # cs) = (p = c \<and> starts_with ps cs)"

fun occurs_in :: "'a list \<Rightarrow> 'a list \<Rightarrow> bool" where
  "occurs_in p [] = (p = [])"
| "occurs_in p (c # cs) = (starts_with p (c # cs) \<or> occurs_in p cs)"

definition ci_occurs :: "string \<Rightarrow> string \<Rightarrow> bool" where
  "ci_occurs p s = occurs_in (map lower p) (map lower s)"

definition field_has :: "string \<Rightarrow> string option \<Rightarrow> bool" where
  "field_has s fld = (case fld of None \<Rightarrow> False | Some v \<Rightarrow> ci_occurs s v)"

text \<open>The ids of a bulk delete that denote the document.\<close>

definition listed :: "oid_reader \<Rightarrow> string list \<Rightarrow> txn \<Rightarrow> bool" where
  "listed cast ids t = (Some (txn_id t) \<in> set (map cast ids))"

text \<open>The search string occurs in the description, the category or the notes.\<close>

definition search_hit :: "string \<Rightarrow> txn \<Rightarrow> bool" where
  "search_hit s t =
     (field_has s (description t) \<or> ci_occurs s (category t) \<or> field_has s (txn_notes t))"

text \<open>The characters with a meaning of their own in a regular expression.\<close>

definition metachar :: "char \<Rightarrow> bool" where
  "metachar c = (c \<in> set ''^$.|?*+()[]{}'' \<or> c = CHR 0x5C)"

definition plain :: "string \<Rightarrow> bool" where
  "plain p = list_all (\<lambda>c. \<not> metachar c) p"

text \<open>An engine that reads a pattern without metacharacters as a case-insensitive substring test.\<close>

definition literal_engine :: "regex_engine \<Rightarrow> bool" where
  "literal_engine rx = (\<forall>p. plain p \<longrightarrow> rx p = Some (ci_occurs p))"

subsection \<open>A reader of ObjectIds for the examples\<close>

text \<open>The strings of 24 hexadecimal digits, which every version of the driver reads.\<close>

definition hex_digit :: "char \<Rightarrow> bool" where
  "hex_digit c = (c \<in> set ''0123456789abcdefABCDEF'')"

definition hex_oid :: oid_reader where
  "hex_oid s = (if length s = 24 \<and> list_all hex_digit s then Some (map lower s) else None)"

subsection \<open>An order and a sort for the examples\<close>

text \<open>
  The order of the store on the eight fields of the model (an absent optional field sorts
  first); the examples sort by no other key. The insertion sort \<open>sort_by\<close> is one of the
  sorts a store may perform.
\<close>

definition core_order :: doc_order where
  "core_order f a b =
     (if f = ''date'' then date a \<le> date b
      else if f = ''amount'' then amount a \<le> amount b
      else if f = ''category'' then category a \<le> category b
      else if f = ''type'' then txn_type a \<le> txn_type b
      else if f = ''description'' then description a \<le> description b
      else if f = ''notes'' then txn_notes a \<le> txn_notes b
      else if f = ''_id'' then txn_id a \<le> txn_id b
      else if f = ''user'' then user a \<le> user b
      else True)"

subsection \<open>An engine for literal characters and the dot\<close>

text \<open>
  The patterns built from ordinary characters and \<^verbatim>\<open>.\<close>, which matches any character but
  a line feed. \<open>dot_engine\<close> rejects every other pattern; it stands for the engine of the
  store on the patterns it accepts.
\<close>

fun dot_at :: "string \<Rightarrow> string \<Rightarrow> bool" where
  "dot_at [] s = True"
| "dot_at (p # ps) [] = False"
| "dot_at (p # ps) (c # cs) =
     ((if p = CHR ''.'' then c \<noteq> CHR 0x0A else lower p = lower c) \<and> dot_at ps cs)"

fun dot_search :: "string \<Rightarrow> string \<Rightarrow> bool" where
  "dot_search p [] = dot_at p []"
| "dot_search p (c # cs) = (dot_at p (c # cs) \<or> dot_search p cs)"

definition dot_engine :: regex_engine where
  "dot_engine p =
     (if list_all (\<lambda>c. \<not> metachar c \<or> c = CHR ''.'') p then Some (dot_search p) else None)"

subsection \<open>A calendar: the proleptic Gregorian calendar in UTC\<close>

text \<open>
  The calendar of a server and a store that both run in UTC: days since the epoch to a
  civil date and back, and \<^verbatim>\<open>setMonth\<close> with its overflow of the day of the month into the
  following month. The computation is staged into small functions.
\<close>

definition year_of_era :: "int \<Rightarrow> int" where
  "year_of_era doe = (doe - doe div 1460 + doe div 36524 - doe div 146096) div 365"

definition day_of_year :: "int \<Rightarrow> int \<Rightarrow> int" where
  "day_of_year doe yoe = doe - (365 * yoe + yoe div 4 - yoe div 100)"

definition month_of_mp :: "int \<Rightarrow> int" where
  "month_of_mp mp = (if mp < 10 then mp + 3 else mp - 9)"

definition civil_ymd :: "int \<Rightarrow> int \<Rightarrow> int \<Rightarrow> int \<Rightarrow> int \<times> int \<times> int" where
  "civil_ymd era yoe doy mp =
     (yoe + era * 400 + (if month_of_mp mp \<le> 2 then 1 else 0),
      month_of_mp mp,
      doy - (153 * mp + 2) div 5 + 1)"

definition civil_doy :: "int \<Rightarrow> int \<Rightarrow> int \<Rightarrow> int \<times> int \<times> int" where
  "civil_doy era yoe doy = civil_ymd era yoe doy ((5 * doy + 2) div 153)"

definition civil_era :: "int \<Rightarrow> int \<Rightarrow> int \<times> int \<times> int" where
  "civil_era era doe = civil_doy era (year_of_era doe) (day_of_year doe (year_of_era doe))"

definition civil_of_days :: "int \<Rightarrow> int \<times> int \<times> int" where
  "civil_of_days days = civil_era ((days + 719468) div 146097) ((days + 719468) mod 146097)"

definition days_of_ym :: "int \<Rightarrow> int \<Rightarrow> int \<Rightarrow> int" where
  "days_of_ym y m d =
     (y div 400) * 146097
     + ((y mod 400) * 365 + (y mod 400) div 4 - (y mod 400) div 100
        + ((153 * (if m > 2 then m - 3 else m + 9) + 2) div 5 + d - 1))
     - 719468"

definition days_of_civil :: "int \<Rightarrow> int \<Rightarrow> int \<Rightarrow> int" where
  "days_of_civil y m d = days_of_ym (y - (if m \<le> 2 then 1 else 0)) m d"

definition date_of_time :: "int \<Rightarrow> jsdate" where
  "date_of_time t = (if \<bar>t\<bar> \<le> 8640000000000000 then Time t else InvalidDate)"

definition time_of_months :: "int \<Rightarrow> int \<Rightarrow> int \<Rightarrow> int" where
  "time_of_months k d tod = (days_of_civil (k div 12) (k mod 12 + 1) 1 + (d - 1)) * 86400000 + tod"

fun shift_months :: "int \<times> int \<times> int \<Rightarrow> int \<Rightarrow> int \<Rightarrow> jsdate" where
  "shift_months (y, m, d) tod n = date_of_time (time_of_months (y * 12 + (m - 1) - n) d tod)"

definition utc_minus_months :: "int \<Rightarrow> int \<Rightarrow> jsdate" where
  "utc_minus_months t n = shift_months (civil_of_days (t div 86400000)) (t mod 86400000) n"

definition utc_year :: "int \<Rightarrow> int" where
  "utc_year t = fst (civil_of_days (t div 86400000))"

definition utc_month :: "int \<Rightarrow> int" where
  "utc_month t = fst (snd (civil_of_days (t div 86400000)))"

definition utc_calendar :: "int \<Rightarrow> calendar" where
  "utc_calendar t0 =
     \<lparr> now = t0, minus_months = utc_minus_months, year_of = utc_year, month_of = utc_month \<rparr>"

subsection \<open>The scenario of the specification\<close>

text \<open>
  User A owns T1 (expense, Food, 50, 2024-01-05) and T2 (income, Salary, 1000, 2024-01-10);
  user B owns nothing. January 2024 runs from 1704067200000 to 1706745599999.
\<close>

definition userA :: oid where "userA = ''aaaaaaaaaaaaaaaaaaaaaaaa''"
definition userB :: oid where "userB = ''bbbbbbbbbbbbbbbbbbbbbbbb''"

definition T1 :: txn where
  "T1 = \<lparr> txn_id = ''000000000000000000000001'', user = userA, txn_type = ''expense'',
          amount = 50, category = ''Food'', description = None,
          date = 1704412800000, txn_notes = None \<rparr>"

definition T2 :: txn where
  "T2 = \<lparr> txn_id = ''000000000000000000000002'', user = userA, txn_type = ''income'',
          amount = 1000, category = ''Salary'', description = None,
          date = 1704844800000, txn_notes = None \<rparr>"

definition january :: "jsdate option \<times> jsdate option" where
  "january = (Some (Time 1704067200000), Some (Time 1706745599999))"

text \<open>More documents: two further expenses of user A in January 2024, one of user B, and
  an older expense of user A (2023-11-15).\<close>

definition T3 :: txn where
  "T3 = \<lparr> txn_id = ''000000000000000000000003'', user = userA, txn_type = ''expense'',
          amount = 700, category = ''Rent'', description = Some ''flat'',
          date = 1705276800000, txn_notes = None \<rparr>"

definition T4 :: txn where
  "T4 = \<lparr> txn_id = ''000000000000000000000004'', user = userA, txn_type = ''expense'',
          amount = 25, category = ''Food'', description = None,
          date = 1705708800000, txn_notes = Some ''lunch'' \<rparr>"

definition T5 :: txn where
  "T5 = \<lparr> txn_id = ''000000000000000000000005'', user = userB, txn_type = ''expense'',
          amount = 10, category = ''Food'', description = None,
          date = 1704412800000, txn_notes = None \<rparr>"

definition T6 :: txn where
  "T6 = \<lparr> txn_id = ''000000000000000000000006'', user = userA, txn_type = ''expense'',
          amount = 30, category = ''Food'', description = Some ''Grocery (weekly)'',
          date = 1700006400000, txn_notes = None \<rparr>"

definition sample_db :: store where
  "sample_db = [T1, T2, T3, T4, T5, T6]"

text \<open>List requests.\<close>

definition no_params :: req_query where
  "no_params = \<lparr> q_page = None, q_limit = None, q_type = None, q_category = None,
                 q_startDate = None, q_endDate = None, q_search = None,
                 q_sortBy = None, q_sortOrder = None \<rparr>"

definition second_page :: req_query where
  "second_page = no_params\<lparr> q_page := Some 2, q_limit := Some 2 \<rparr>"

definition zero_limit :: req_query where
  "zero_limit = no_params\<lparr> q_limit := Some 0 \<rparr>"

definition bad_end :: req_query where
  "bad_end = no_params\<lparr> q_endDate := Some InvalidDate \<rparr>"

definition bad_start :: req_query where
  "bad_start = no_params\<lparr> q_startDate := Some InvalidDate \<rparr>"

definition fifth_page :: req_query where
  "fifth_page = no_params\<lparr> q_page := Some 5, q_limit := Some 2 \<rparr>"

definition search_food :: req_query where
  "search_food = no_params\<lparr> q_search := Some ''food'' \<rparr>"

definition search_dot :: req_query where
  "search_dot = no_params\<lparr> q_search := Some ''F.od'' \<rparr>"

text \<open>Update bodies: the empty one, and one that repeats the type, the amount and the
  category of T1 and names user B as the owner.\<close>

definition empty_body :: body where
  "empty_body = \<lparr> b_user = None, b_type = None, b_amount = None, b_category = None,
                  b_description = None, b_date = None, b_notes = None \<rparr>"

definition reassign :: body where
  "reassign = empty_body\<lparr> b_user := Some userB, b_type := Some ''expense'',
                           b_amount := Some 50, b_category := Some ''Food'' \<rparr>"

text \<open>The subtraction of the runtime on the amounts of the scenario, which are integers
  far below \<open>2^53\<close>: there the subtraction of doubles is exact.\<close>

definition exact_minus :: js_minus where
  "exact_minus a b = a - b"

section \<open>Properties\<close>

lemmas civil_defs = year_of_era_def day_of_year_def month_of_mp_def civil_ymd_def civil_doy_def
  civil_era_def civil_of_days_def days_of_ym_def days_of_civil_def date_of_time_def
  time_of_months_def utc_minus_months_def utc_year_def utc_month_def

lemmas sample_defs = sample_db_def T1_def T2_def T3_def T4_def T5_def T6_def userA_def userB_def

text \<open>The calendar at the dates of the sample documents.\<close>

lemma utc_sample_dates:
  "utc_year 1704412800000 = 2024" "utc_month 1704412800000 = 1"
  "utc_year 1704844800000 = 2024" "utc_month 1704844800000 = 1"
  "utc_year 1705276800000 = 2024" "utc_month 1705276800000 = 1"
  "utc_year 1705708800000 = 2024" "utc_month 1705708800000 = 1"
  "utc_year 1700006400000 = 2023" "utc_month 1700006400000 = 11"
  "utc_minus_months 1706745600000 1 = Time 1704067200000"
  "utc_minus_months 1706745600000 12 = Time 1675209600000"
  by (simp_all add: civil_defs)

subsection \<open>Grouping\<close>

lemma grp_keys: "map g_id (map mk_grp (group_by key xs)) = remdups (map key xs)"
  by (simp add: group_by_def mk_grp_def comp_def)

lemma grp_member:
  "g \<in> set (map mk_grp (group_by key xs)) \<Longrightarrow>
     g = mk_grp (g_id g, filter (\<lambda>x. key x = g_id g) xs) \<and> g_id g \<in> key ` set xs"
  by (auto simp: group_by_def mk_grp_def)

lemma of_type_absent: "k \<notin> txn_type ` set xs \<Longrightarrow> of_type k xs = []"
  unfolding of_type_def by (induction xs) auto

subsection \<open>The summary formatter\<close>

lemma fold_summary_item_no_income:
  "''income'' \<notin> g_id ` set gs \<Longrightarrow>
     income (fold summary_item gs fs) = income fs
     \<and> incomeCount (fold summary_item gs fs) = incomeCount fs"
  by (induction gs arbitrary: fs) (auto simp: summary_item_def)

lemma fold_summary_item_no_expense:
  "''expense'' \<notin> g_id ` set gs \<Longrightarrow>
     expense (fold summary_item gs fs) = expense fs
     \<and> expenseCount (fold summary_item gs fs) = expenseCount fs"
  by (induction gs arbitrary: fs) (auto simp: summary_item_def)

lemma fold_summary_item_income:
  "distinct (map g_id gs) \<Longrightarrow> g \<in> set gs \<Longrightarrow> g_id g = ''income'' \<Longrightarrow>
     income (fold summary_item gs fs) = total g
     \<and> incomeCount (fold summary_item gs fs) = count g"
proof (induction gs arbitrary: fs)
  case Nil
  then show ?case by simp
next
  case (Cons a gs)
  show ?case
  proof (cases "g = a")
    case True
    with Cons.prems have "''income'' \<notin> g_id ` set gs" by auto
    from fold_summary_item_no_income[OF this, of "summary_item a fs"] have
      "income (fold summary_item (a # gs) fs) = income (summary_item a fs)"
      "incomeCount (fold summary_item (a # gs) fs) = incomeCount (summary_item a fs)"
      by simp_all
    moreover have "income (summary_item a fs) = total a"
      "incomeCount (summary_item a fs) = count a"
      using True Cons.prems(3) by (simp_all add: summary_item_def)
    ultimately show ?thesis using True by simp
  next
    case False
    with Cons show ?thesis by auto
  qed
qed

lemma fold_summary_item_expense:
  "distinct (map g_id gs) \<Longrightarrow> g \<in> set gs \<Longrightarrow> g_id g = ''expense'' \<Longrightarrow>
     expense (fold summary_item gs fs) = total g
     \<and> expenseCount (fold summary_item gs fs) = count g"
proof (induction gs arbitrary: fs)
  case Nil
  then show ?case by simp
next
  case (Cons a gs)
  show ?case
  proof (cases "g = a")
    case True
    with Cons.prems have "''expense'' \<notin> g_id ` set gs" by auto
    from fold_summary_item_no_expense[OF this, of "summary_item a fs"] have
      "expense (fold summary_item (a # gs) fs) = expense (summary_item a fs)"
      "expenseCount (fold summary_item (a # gs) fs) = expenseCount (summary_item a fs)"
      by simp_all
    moreover have "expense (summary_item a fs) = total a"
      "expenseCount (summary_item a fs) = count a"
      using True Cons.prems(3) by (simp_all add: summary_item_def)
    ultimately show ?thesis using True by simp
  next
    case False
    with Cons show ?thesis by auto
  qed
qed

lemma fold_groups_income:
  fixes xs :: "txn list"
  defines "gs \<equiv> map mk_grp (group_by txn_type xs)"
  shows "income (fold summary_item gs formattedSummary0)
           = sum_list (map amount (of_type ''income'' xs))
       \<and> incomeCount (fold summary_item gs formattedSummary0) = length (of_type ''income'' xs)"
proof (cases "''income'' \<in> txn_type ` set xs")
  case True
  then have "''income'' \<in> set (map g_id gs)"
    unfolding gs_def grp_keys by simp
  then obtain g where g: "g \<in> set gs" "g_id g = ''income''" by auto
  have d: "distinct (map g_id gs)" unfolding gs_def grp_keys by simp
  from g(1) have "g = mk_grp (g_id g, filter (\<lambda>x. txn_type x = g_id g) xs)"
    unfolding gs_def using grp_member by blast
  with g(2) have "total g = sum_list (map amount (of_type ''income'' xs))"
    "count g = length (of_type ''income'' xs)"
    by (simp_all add: mk_grp_def of_type_def)
  with fold_summary_item_income[OF d g] show ?thesis by simp
next
  case False
  then have "''income'' \<notin> g_id ` set gs"
    using grp_keys[of txn_type xs] unfolding gs_def by (metis set_map set_remdups)
  moreover have "of_type ''income'' xs = []"
    using False of_type_absent by blast
  ultimately show ?thesis
    using fold_summary_item_no_income[of gs formattedSummary0]
    by (simp add: formattedSummary0_def)
qed

lemma fold_groups_expense:
  fixes xs :: "txn list"
  defines "gs \<equiv> map mk_grp (group_by txn_type xs)"
  shows "expense (fold summary_item gs formattedSummary0)
           = sum_list (map amount (of_type ''expense'' xs))
       \<and> expenseCount (fold summary_item gs formattedSummary0) = length (of_type ''expense'' xs)"
proof (cases "''expense'' \<in> txn_type ` set xs")
  case True
  then have "''expense'' \<in> set (map g_id gs)"
    unfolding gs_def grp_keys by simp
  then obtain g where g: "g \<in> set gs" "g_id g = ''expense''" by auto
  have d: "distinct (map g_id gs)" unfolding gs_def grp_keys by simp
  from g(1) have "g = mk_grp (g_id g, filter (\<lambda>x. txn_type x = g_id g) xs)"
    unfolding gs_def using grp_member by blast
  with g(2) have "total g = sum_list (map amount (of_type ''expense'' xs))"
    "count g = length (of_type ''expense'' xs)"
    by (simp_all add: mk_grp_def of_type_def)
  with fold_summary_item_expense[OF d g] show ?thesis by simp
next
  case False
  then have "''expense'' \<notin> g_id ` set gs"
    using grp_keys[of txn_type xs] unfolding gs_def by (metis set_map set_remdups)
  moreover have "of_type ''expense'' xs = []"
    using False of_type_absent by blast
  ultimately show ?thesis
    using fold_summary_item_no_expense[of gs formattedSummary0]
    by (simp add: formattedSummary0_def)
qed

lemma format_summary_fields:
  "income (format_summary sub gs) = income (fold summary_item gs formattedSummary0)"
  "expense (format_summary sub gs) = expense (fold summary_item gs formattedSummary0)"
  "incomeCount (format_summary sub gs) = incomeCount (fold summary_item gs formattedSummary0)"
  "expenseCount (format_summary sub gs) = expenseCount (fold summary_item gs formattedSummary0)"
  "balance (format_summary sub gs)
     = sub (income (format_summary sub gs)) (expense (format_summary sub gs))"
  "totalTransactions (format_summary sub gs)
     = incomeCount (format_summary sub gs) + expenseCount (format_summary sub gs)"
  by (simp_all add: format_summary_def Let_def)

lemma group_of_None: "group_of k gs = None \<longleftrightarrow> k \<notin> g_id ` set gs"
  by (auto simp: group_of_def find_None_iff)

lemma group_of_Some: "group_of k gs = Some g \<Longrightarrow> g \<in> set gs \<and> g_id g = k"
  by (auto simp: group_of_def find_Some_iff)

lemma summary_income_group:
  assumes "distinct (map g_id gs)"
  shows "case group_of ''income'' gs of
           None \<Rightarrow> income (format_summary sub gs) = 0 \<and> incomeCount (format_summary sub gs) = 0
         | Some g \<Rightarrow> income (format_summary sub gs) = total g
                     \<and> incomeCount (format_summary sub gs) = count g"
proof (cases "group_of ''income'' gs")
  case None
  then have "''income'' \<notin> g_id ` set gs" by (simp add: group_of_None)
  from fold_summary_item_no_income[OF this, of formattedSummary0] None show ?thesis
    by (simp add: format_summary_fields formattedSummary0_def)
next
  case (Some g)
  from group_of_Some[OF Some] have "g \<in> set gs" "g_id g = ''income''" by blast+
  from fold_summary_item_income[OF assms this, of formattedSummary0] Some show ?thesis
    by (simp add: format_summary_fields)
qed

lemma summary_expense_group:
  assumes "distinct (map g_id gs)"
  shows "case group_of ''expense'' gs of
           None \<Rightarrow> expense (format_summary sub gs) = 0 \<and> expenseCount (format_summary sub gs) = 0
         | Some g \<Rightarrow> expense (format_summary sub gs) = total g
                     \<and> expenseCount (format_summary sub gs) = count g"
proof (cases "group_of ''expense'' gs")
  case None
  then have "''expense'' \<notin> g_id ` set gs" by (simp add: group_of_None)
  from fold_summary_item_no_expense[OF this, of formattedSummary0] None show ?thesis
    by (simp add: format_summary_fields formattedSummary0_def)
next
  case (Some g)
  from group_of_Some[OF Some] have "g \<in> set gs" "g_id g = ''expense''" by blast+
  from fold_summary_item_expense[OF assms this, of formattedSummary0] Some show ?thesis
    by (simp add: format_summary_fields)
qed

lemma summary_matched_scope:
  "summary_matched db uid (range_start r) (range_end r) = filter (in_scope uid r) db"
proof -
  have "stage_matches (summary_stage uid (range_start r) (range_end r)) = in_scope uid r"
    by (cases r)
      (auto simp: fun_eq_iff stage_matches_def summary_stage_def date_range_def
        range_start_def range_end_def)
  then show ?thesis by (simp add: summary_matched_def)
qed

lemma of_type_filter: "of_type k (filter P db) = filter (\<lambda>t. P t \<and> txn_type t = k) db"
  by (simp add: of_type_def)

text \<open>
  Claim C3. For every user and every date range the summary controller replies with the
  fixed-shape object. Its balance is what the runtime's subtraction makes of income and
  expense, its transaction count the sum of the two counts. Income and its count are the
  total and the count of the income group of the aggregation output, and zero when the
  output has no such group; likewise for expense. The counts are the numbers of income and
  expense transactions of the user within the range, and when the user has no transaction
  within the range the reply is the all-zero object (the balance being 0 - 0).
\<close>

theorem summary_fixed_shape:
  "\<exists>s. getTransactionSummary sub db uid startDate endDate = Success s
     \<and> balance s = sub (income s) (expense s)
     \<and> totalTransactions s = incomeCount s + expenseCount s
     \<and> (case group_of ''income'' (Transaction_getUserSummary db uid startDate endDate) of
           None \<Rightarrow> income s = 0 \<and> incomeCount s = 0
         | Some g \<Rightarrow> income s = total g \<and> incomeCount s = count g)
     \<and> (case group_of ''expense'' (Transaction_getUserSummary db uid startDate endDate) of
           None \<Rightarrow> expense s = 0 \<and> expenseCount s = 0
         | Some g \<Rightarrow> expense s = total g \<and> expenseCount s = count g)
     \<and> (startDate = range_start r \<and> endDate = range_end r \<longrightarrow>
           incomeCount s = length (filter (\<lambda>t. in_scope uid r t \<and> txn_type t = ''income'') db)
           \<and> expenseCount s
               = length (filter (\<lambda>t. in_scope uid r t \<and> txn_type t = ''expense'') db)
           \<and> (filter (in_scope uid r) db = [] \<longrightarrow>
                 s = formattedSummary0\<lparr> balance := sub 0 0 \<rparr>
                 \<and> (sub 0 0 = 0 \<longrightarrow> s = formattedSummary0)))"
proof -
  let ?M = "summary_matched db uid startDate endDate"
  let ?gs = "Transaction_getUserSummary db uid startDate endDate"
  let ?s = "format_summary sub ?gs"
  have gs: "?gs = map mk_grp (group_by txn_type ?M)"
    by (simp add: Transaction_getUserSummary_def summary_matched_def)
  have d: "distinct (map g_id ?gs)" unfolding gs grp_keys by simp
  have r: "getTransactionSummary sub db uid startDate endDate = Success ?s"
    by (simp add: getTransactionSummary_def)
  have cnt: "incomeCount ?s = length (of_type ''income'' ?M)"
    "expenseCount ?s = length (of_type ''expense'' ?M)"
    using fold_groups_income[of ?M] fold_groups_expense[of ?M]
    by (simp_all add: format_summary_fields gs)
  have rng: "startDate = range_start r \<and> endDate = range_end r \<longrightarrow>
           incomeCount ?s = length (filter (\<lambda>t. in_scope uid r t \<and> txn_type t = ''income'') db)
           \<and> expenseCount ?s
               = length (filter (\<lambda>t. in_scope uid r t \<and> txn_type t = ''expense'') db)
           \<and> (filter (in_scope uid r) db = [] \<longrightarrow>
                 ?s = formattedSummary0\<lparr> balance := sub 0 0 \<rparr>
                 \<and> (sub 0 0 = 0 \<longrightarrow> ?s = formattedSummary0))"
  proof (intro impI conjI)
    assume h: "startDate = range_start r \<and> endDate = range_end r"
    then have m: "?M = filter (in_scope uid r) db" using summary_matched_scope by simp
    show "incomeCount ?s = length (filter (\<lambda>t. in_scope uid r t \<and> txn_type t = ''income'') db)"
      using cnt(1) unfolding m of_type_filter .
    show "expenseCount ?s = length (filter (\<lambda>t. in_scope uid r t \<and> txn_type t = ''expense'') db)"
      using cnt(2) unfolding m of_type_filter .
    assume e: "filter (in_scope uid r) db = []"
    then have "?gs = []" unfolding gs m by (simp add: group_by_def)
    then show z: "?s = formattedSummary0\<lparr> balance := sub 0 0 \<rparr>"
      by (simp add: format_summary_def formattedSummary0_def)
    assume "sub 0 0 = 0"
    with z show "?s = formattedSummary0" by (simp add: formattedSummary0_def)
  qed
  from r format_summary_fields(5,6)[of sub ?gs] summary_income_group[OF d, of sub]
    summary_expense_group[OF d, of sub] rng
  show ?thesis by blast
qed

theorem summary_fixed_shape_witness:
  "fst january = range_start (Some (1704067200000, 1706745599999))
   \<and> snd january = range_end (Some (1704067200000, 1706745599999))
   \<and> getTransactionSummary exact_minus sample_db userA (fst january) (snd january)
       = Success \<lparr> income = 1000, expense = 775, balance = 225,
                   incomeCount = 1, expenseCount = 3, totalTransactions = 4 \<rparr>
   \<and> group_of ''income'' (Transaction_getUserSummary [T5] userB None None) = None
   \<and> None = range_start None \<and> None = range_end None
   \<and> filter (in_scope userA None) [T5] = []
   \<and> exact_minus 0 0 = 0
   \<and> getTransactionSummary exact_minus [T5] userA None None = Success formattedSummary0"
proof -
  have j: "fst january = range_start (Some (1704067200000, 1706745599999))"
    "snd january = range_end (Some (1704067200000, 1706745599999))"
    by (simp_all add: january_def range_start_def range_end_def)
  have v: "getTransactionSummary exact_minus sample_db userA (fst january) (snd january)
       = Success \<lparr> income = 1000, expense = 775, balance = 225,
                   incomeCount = 1, expenseCount = 3, totalTransactions = 4 \<rparr>"
    by (simp add: getTransactionSummary_def Transaction_getUserSummary_def summary_stage_def
        date_range_def january_def stage_matches_def sample_defs group_by_def mk_grp_def
        format_summary_def summary_item_def formattedSummary0_def exact_minus_def Let_def)
  have g: "group_of ''income'' (Transaction_getUserSummary [T5] userB None None) = None"
    by (simp add: group_of_def Transaction_getUserSummary_def summary_stage_def date_range_def
        stage_matches_def group_by_def mk_grp_def T5_def)
  have n: "None = range_start None" "None = range_end None"
    by (simp_all add: range_start_def range_end_def)
  have e: "filter (in_scope userA None) [T5] = []"
    by (simp add: T5_def userA_def userB_def)
  have z: "exact_minus 0 0 = 0" by (simp add: exact_minus_def)
  from summary_fixed_shape [of exact_minus "[T5]" userA None None None] n e z
  have "getTransactionSummary exact_minus [T5] userA None None = Success formattedSummary0"
    by auto
  with j v g n e z show ?thesis by blast
qed

subsection \<open>Sorting\<close>

lemma mset_insort_by: "mset (insort_by le x xs) = add_mset x (mset xs)"
  by (induction xs) auto

lemma mset_sort_by: "mset (sort_by le xs) = mset xs"
  unfolding sort_by_def by (induction xs) (auto simp: mset_insort_by)

lemma set_sort_by: "set (sort_by le xs) = set xs"
  using mset_sort_by[of le xs] by (metis set_mset_mset)

lemma length_sort_by: "length (sort_by le xs) = length xs"
  using mset_sort_by[of le xs] by (metis size_mset)

lemma distinct_sort_by: "distinct (sort_by le xs) = distinct xs"
  using mset_sort_by[of le xs] by (metis mset_eq_imp_distinct_iff)

lemma set_insort_by: "set (insort_by le x xs) = insert x (set xs)"
  by (induction xs) auto

lemma sorted_insort_by:
  "total_preorder le \<Longrightarrow> sorted_wrt le xs \<Longrightarrow> sorted_wrt le (insort_by le x xs)"
proof (induction xs)
  case Nil
  then show ?case by simp
next
  case (Cons y ys)
  then have tot: "\<And>a b. le a b \<or> le b a" and tr: "\<And>a b c. le a b \<Longrightarrow> le b c \<Longrightarrow> le a c"
    unfolding total_preorder_def by blast+
  show ?case
  proof (cases "le x y")
    case True
    then have "\<forall>z\<in>set ys. le x z" using Cons.prems(2) tr by auto
    with True Cons.prems(2) show ?thesis by simp
  next
    case False
    then have "le y x" using tot by blast
    with False Cons show ?thesis by (auto simp: set_insort_by)
  qed
qed

lemma sorted_sort_by: "total_preorder le \<Longrightarrow> sorted_wrt le (sort_by le xs)"
  unfolding sort_by_def by (induction xs) (auto intro: sorted_insort_by)

lemma total_desc_preorder: "total_preorder total_desc"
  unfolding total_preorder_def total_desc_def by auto

lemma trend_le_preorder: "total_preorder trend_le"
  unfolding total_preorder_def trend_le_def by auto

lemma key_preorder: "total_preorder (\<lambda>a b. (k a :: 'k :: linorder) \<le> k b)"
  unfolding total_preorder_def by (meson linear order_trans)

lemma trivial_preorder: "total_preorder (\<lambda>a b. True)"
  unfolding total_preorder_def by simp

lemma if_preorder:
  "total_preorder p \<Longrightarrow> total_preorder q \<Longrightarrow> total_preorder (\<lambda>a b. if c then p a b else q a b)"
  by (cases c) simp_all

lemma core_order_preorder: "total_preorder (core_order f)"
proof -
  have "core_order f = (\<lambda>a b.
      if f = ''date'' then date a \<le> date b
      else if f = ''amount'' then amount a \<le> amount b
      else if f = ''category'' then category a \<le> category b
      else if f = ''type'' then txn_type a \<le> txn_type b
      else if f = ''description'' then description a \<le> description b
      else if f = ''notes'' then txn_notes a \<le> txn_notes b
      else if f = ''_id'' then txn_id a \<le> txn_id b
      else if f = ''user'' then user a \<le> user b
      else True)"
    unfolding core_order_def fun_eq_iff by (rule allI)+ (rule refl)
  then show ?thesis
    by (simp only: if_preorder key_preorder trivial_preorder)
qed

lemma flip_preorder: "total_preorder le \<Longrightarrow> total_preorder (\<lambda>a b. le b a)"
  unfolding total_preorder_def by blast

lemma list_cmp_preorder:
  assumes "total_preorder (ord (sort_key q))"
  shows "total_preorder (list_cmp ord q)"
proof (cases "(case q_sortOrder q of None \<Rightarrow> ''desc'' | Some s \<Rightarrow> s) = ''desc''")
  case True
  then have "list_cmp ord q = (\<lambda>a b. ord (sort_key q) b a)"
    unfolding list_cmp_def sort_cmp_def sort_key_def Let_def by simp
  then show ?thesis
    using flip_preorder[OF assms] by (simp only:)
next
  case False
  then have "list_cmp ord q = ord (sort_key q)"
    unfolding list_cmp_def sort_cmp_def sort_key_def Let_def by simp
  then show ?thesis
    using assms by (simp only:)
qed

lemma sorts_sort_by: "sorts sort_by"
  unfolding sorts_def by (simp add: mset_sort_by sorted_sort_by)

text \<open>Without ties there is one sorted sequence of the documents.\<close>

lemma sorted_unique:
  "sorted_wrt le xs \<Longrightarrow> sorted_wrt le ys \<Longrightarrow> mset xs = mset ys \<Longrightarrow> no_ties le xs \<Longrightarrow> xs = ys"
proof (induction xs arbitrary: ys)
  case Nil
  then show ?case by simp
next
  case (Cons x xs)
  from Cons.prems(3) have "ys \<noteq> []" by auto
  then obtain y ys' where ys: "ys = y # ys'" by (cases ys) auto
  have sx: "set (x # xs) = set ys" using Cons.prems(3) by (metis set_mset_mset)
  have xy: "x = y"
  proof (rule ccontr)
    assume ne: "x \<noteq> y"
    have "x \<in> set ys" using sx by auto
    with ne ys have "x \<in> set ys'" by auto
    then have 1: "le y x" using Cons.prems(2) ys by auto
    have "y \<in> set (x # xs)" using sx ys by auto
    with ne have "y \<in> set xs" by auto
    then have 2: "le x y" using Cons.prems(1) by auto
    have "x \<in> set (x # xs)" "y \<in> set (x # xs)" using sx ys by auto
    with 1 2 Cons.prems(4) have "x = y" unfolding no_ties_def by blast
    with ne show False by simp
  qed
  have m: "mset xs = mset ys'" using Cons.prems(3) ys xy by simp
  have n: "no_ties le xs" using Cons.prems(4) unfolding no_ties_def by auto
  have "xs = ys'"
    using Cons.IH[of ys'] Cons.prems(1,2) ys m n by simp
  with xy ys show ?case by simp
qed

lemma sorts_agree:
  assumes "sorts srt" "sorts srt'" "total_preorder le" "no_ties le xs"
  shows "srt le xs = srt' le xs"
proof -
  have a: "mset (srt le xs) = mset xs" "sorted_wrt le (srt le xs)"
    using assms(1,3) unfolding sorts_def by blast+
  have b: "mset (srt' le xs) = mset xs" "sorted_wrt le (srt' le xs)"
    using assms(2,3) unfolding sorts_def by blast+
  have "set (srt le xs) = set xs" using a(1) by (metis set_mset_mset)
  then have "no_ties le (srt le xs)" using assms(4) unfolding no_ties_def by simp
  with a b show ?thesis by (intro sorted_unique) simp_all
qed

subsection \<open>Category breakdown\<close>

lemma breakdown_groups:
  fixes M :: "txn list"
  defines "bd \<equiv> sort_by total_desc (map mk_grp (group_by category M))"
  shows "distinct (map g_id bd)" "set (map g_id bd) = category ` set M"
    "sorted_wrt total_desc bd"
    "\<forall>g\<in>set bd. total g = sum_list (map amount (of_category (g_id g) M))
        \<and> count g = length (of_category (g_id g) M)
        \<and> avgAmount g = total g / of_nat (count g)"
proof -
  let ?gs = "map mk_grp (group_by category M)"
  have m: "mset bd = mset ?gs" unfolding bd_def by (rule mset_sort_by)
  then have "mset (map g_id bd) = mset (map g_id ?gs)" by (metis mset_map)
  then have k: "mset (map g_id bd) = mset (remdups (map category M))" by (simp only: grp_keys)
  then show "distinct (map g_id bd)" by (metis distinct_remdups mset_eq_imp_distinct_iff)
  from k show "set (map g_id bd) = category ` set M" by (metis set_mset_mset set_remdups set_map)
  show "sorted_wrt total_desc bd" unfolding bd_def by (rule sorted_sort_by[OF total_desc_preorder])
  have s: "set bd = set ?gs" using m by (metis set_mset_mset)
  show "\<forall>g\<in>set bd. total g = sum_list (map amount (of_category (g_id g) M))
        \<and> count g = length (of_category (g_id g) M)
        \<and> avgAmount g = total g / of_nat (count g)"
  proof
    fix g assume "g \<in> set bd"
    then have "g \<in> set ?gs" using s by simp
    then have "g = mk_grp (g_id g, filter (\<lambda>x. category x = g_id g) M)" using grp_member by blast
    then have "total g = total (mk_grp (g_id g, of_category (g_id g) M))"
      "count g = count (mk_grp (g_id g, of_category (g_id g) M))"
      "avgAmount g = avgAmount (mk_grp (g_id g, of_category (g_id g) M))"
      unfolding of_category_def by simp_all
    then show "total g = sum_list (map amount (of_category (g_id g) M))
        \<and> count g = length (of_category (g_id g) M)
        \<and> avgAmount g = total g / of_nat (count g)"
      by (simp add: mk_grp_def)
  qed
qed

text \<open>
  Claim C6. The category breakdown replies with a validation error exactly when the type is
  neither income nor expense. For a valid type the reply lists one entry for each category
  that occurs among the matching transactions, each with the sum, count and average of its
  amounts, in descending order of the sum.
\<close>

theorem category_breakdown_contract:
  "(ty \<noteq> ''income'' \<and> ty \<noteq> ''expense''
      \<longrightarrow> getCategoryBreakdown db uid ty startDate endDate
            = Failed 400 ''Type must be either income or expense'')
   \<and> (ty = ''income'' \<or> ty = ''expense''
      \<longrightarrow> (\<exists>bd. getCategoryBreakdown db uid ty startDate endDate = Success bd
             \<and> distinct (map g_id bd)
             \<and> set (map g_id bd) = category ` set (breakdown_matched db uid ty startDate endDate)
             \<and> sorted_wrt (\<lambda>a b. total b \<le> total a) bd
             \<and> (\<forall>g\<in>set bd.
                   total g = sum_list (map amount
                      (of_category (g_id g) (breakdown_matched db uid ty startDate endDate)))
                   \<and> count g = length
                      (of_category (g_id g) (breakdown_matched db uid ty startDate endDate))
                   \<and> avgAmount g = total g / of_nat (count g))))
   \<and> (is_validation_error (getCategoryBreakdown db uid ty startDate endDate)
        \<longleftrightarrow> ty \<noteq> ''income'' \<and> ty \<noteq> ''expense'')"
proof -
  let ?M = "breakdown_matched db uid ty startDate endDate"
  let ?bd = "Transaction_getCategoryBreakdown db uid ty startDate endDate"
  have bd: "?bd = sort_by total_desc (map mk_grp (group_by category ?M))"
    by (simp add: Transaction_getCategoryBreakdown_def breakdown_matched_def)
  have td: "total_desc = (\<lambda>a b :: string grp. total b \<le> total a)"
    by (simp add: total_desc_def fun_eq_iff)
  note g = breakdown_groups[of ?M, folded bd]
  have bad: "ty \<noteq> ''income'' \<and> ty \<noteq> ''expense''
      \<longrightarrow> getCategoryBreakdown db uid ty startDate endDate
            = Failed 400 ''Type must be either income or expense''"
    by (simp add: getCategoryBreakdown_def)
  have good: "ty = ''income'' \<or> ty = ''expense''
      \<longrightarrow> getCategoryBreakdown db uid ty startDate endDate = Success ?bd"
    by (auto simp add: getCategoryBreakdown_def)
  have iff: "is_validation_error (getCategoryBreakdown db uid ty startDate endDate)
        \<longleftrightarrow> ty \<noteq> ''income'' \<and> ty \<noteq> ''expense''"
    by (simp add: getCategoryBreakdown_def)
  from bad good iff g(1,2,4) g(3)[unfolded td] show ?thesis by blast
qed

theorem category_breakdown_contract_witness:
  "''expense'' = ''expense''
   \<and> getCategoryBreakdown sample_db userA ''expense'' (fst january) (snd january)
       = Success [\<lparr>g_id = ''Rent'', total = 700, count = 1, avgAmount = 700\<rparr>,
                  \<lparr>g_id = ''Food'', total = 75, count = 2, avgAmount = 75 / 2\<rparr>]
   \<and> ''transfer'' \<noteq> ''income'' \<and> ''transfer'' \<noteq> ''expense''
   \<and> getCategoryBreakdown sample_db userA ''transfer'' None None
       = Failed 400 ''Type must be either income or expense''"
proof -
  have a: "getCategoryBreakdown sample_db userA ''expense'' (fst january) (snd january)
       = Success [\<lparr>g_id = ''Rent'', total = 700, count = 1, avgAmount = 700\<rparr>,
                  \<lparr>g_id = ''Food'', total = 75, count = 2, avgAmount = 75 / 2\<rparr>]"
    by (simp add: getCategoryBreakdown_def Transaction_getCategoryBreakdown_def
        breakdown_stage_def date_range_def january_def stage_matches_def sample_defs
        group_by_def mk_grp_def sort_by_def total_desc_def)
  have b: "''transfer'' \<noteq> ''income'' \<and> ''transfer'' \<noteq> ''expense''" by simp
  from category_breakdown_contract [of "''transfer''" sample_db userA None None] b
  have "getCategoryBreakdown sample_db userA ''transfer'' None None
       = Failed 400 ''Type must be either income or expense''" by blast
  with a b show ?thesis by simp
qed

subsection \<open>The date range of the pipelines\<close>

lemma filter_filter_conj: "filter P (filter Q xs) = filter (\<lambda>x. Q x \<and> P x) xs"
  by (induction xs) auto

text \<open>
  The date term of the two pipelines when both bounds are well-formed dates, and when both
  are absent.
\<close>

lemma pipeline_date_range:
  "(startDate = Some (Time a) \<and> endDate = Some (Time b) \<longrightarrow>
      summary_matched db uid startDate endDate = filter (in_range uid a b) db
      \<and> breakdown_matched db uid ty startDate endDate
          = filter (\<lambda>t. in_range uid a b t \<and> txn_type t = ty) db
      \<and> Transaction_getUserSummary db uid startDate endDate
          = Transaction_getUserSummary (filter (in_range uid a b) db) uid None None
      \<and> Transaction_getCategoryBreakdown db uid ty startDate endDate
          = Transaction_getCategoryBreakdown (filter (in_range uid a b) db) uid ty None None)
   \<and> (startDate = None \<and> endDate = None \<longrightarrow>
      summary_matched db uid startDate endDate = filter (owned uid) db
      \<and> breakdown_matched db uid ty startDate endDate
          = filter (\<lambda>t. owned uid t \<and> txn_type t = ty) db)"
proof -
  have 1: "stage_matches (summary_stage uid (Some (Time a)) (Some (Time b))) = in_range uid a b"
    by (auto simp: fun_eq_iff stage_matches_def summary_stage_def date_range_def in_range_def)
  have 2: "stage_matches (breakdown_stage uid ty (Some (Time a)) (Some (Time b)))
           = (\<lambda>t. in_range uid a b t \<and> txn_type t = ty)"
    by (auto simp: fun_eq_iff stage_matches_def breakdown_stage_def date_range_def in_range_def)
  have 3: "stage_matches (summary_stage uid None None) = owned uid"
    by (auto simp: fun_eq_iff stage_matches_def summary_stage_def date_range_def owned_def)
  have 4: "stage_matches (breakdown_stage uid ty None None) = (\<lambda>t. owned uid t \<and> txn_type t = ty)"
    by (auto simp: fun_eq_iff stage_matches_def breakdown_stage_def date_range_def owned_def)
  have 5: "(\<lambda>x. in_range uid a b x \<and> owned uid x) = in_range uid a b"
    by (auto simp: fun_eq_iff owned_def in_range_def)
  have 6: "(\<lambda>x. in_range uid a b x \<and> owned uid x \<and> txn_type x = ty)
           = (\<lambda>t. in_range uid a b t \<and> txn_type t = ty)"
    by (auto simp: fun_eq_iff owned_def in_range_def)
  show ?thesis
    by (simp add: summary_matched_def breakdown_matched_def Transaction_getUserSummary_def
        Transaction_getCategoryBreakdown_def 1 2 3 4 5 6)
qed

text \<open>
  Claim C7 fails on the code for a single bound: both statics add the date term only under
  \<^verbatim>\<open>if (startDate && endDate)\<close>. With only startDate = 2024-01-10 the summary pipeline and
  the category breakdown still aggregate T1, dated 2024-01-05, and the summary reply counts
  its 50 as expense.
\<close>

theorem summary_ignores_single_bound:
  "date T1 < 1704844800000
   \<and> Transaction_getUserSummary [T1, T2] userA (Some (Time 1704844800000)) None
       = [\<lparr>g_id = ''expense'', total = 50, count = 1, avgAmount = 50\<rparr>,
          \<lparr>g_id = ''income'', total = 1000, count = 1, avgAmount = 1000\<rparr>]
   \<and> Transaction_getCategoryBreakdown [T1, T2] userA ''expense'' (Some (Time 1704844800000)) None
       = [\<lparr>g_id = ''Food'', total = 50, count = 1, avgAmount = 50\<rparr>]
   \<and> getTransactionSummary exact_minus [T1, T2] userA (Some (Time 1704844800000)) None
       = Success \<lparr> income = 1000, expense = 50, balance = 950,
                   incomeCount = 1, expenseCount = 1, totalTransactions = 2 \<rparr>"
  by (simp add: getTransactionSummary_def Transaction_getUserSummary_def summary_stage_def
      Transaction_getCategoryBreakdown_def breakdown_stage_def sort_by_def total_desc_def
      date_range_def stage_matches_def T1_def T2_def group_by_def mk_grp_def
      format_summary_def summary_item_def formattedSummary0_def exact_minus_def Let_def)

subsection \<open>Monthly trends\<close>

lemma trend_keys: "map tr_key (map mk_trend (group_by key xs)) = remdups (map key xs)"
  by (simp add: group_by_def mk_trend_def tr_key_def comp_def)

lemma trend_member:
  "g \<in> set (map mk_trend (group_by key xs)) \<Longrightarrow>
     g = mk_trend (tr_key g, filter (\<lambda>x. key x = tr_key g) xs) \<and> tr_key g \<in> key ` set xs"
  by (auto simp: group_by_def mk_trend_def tr_key_def)

text \<open>
  Claim C9. For every number of months (12 when the parameter is absent) the monthly trend
  is sorted ascending by (year, month, type), has one group for each key that occurs among
  the transactions of the user dated at or after now minus that many months, and each
  group holds the sum and the count of exactly those transactions under its key: no
  transaction older than the cutoff is in any group.
\<close>

theorem monthly_trends_contract:
  assumes cut: "minus_months cal (now cal) (months_of months) = Time cutoff"
  shows "\<exists>trs. getMonthlyTrends cal db uid months = Success trs
     \<and> sorted_wrt trend_le trs
     \<and> distinct (map tr_key trs)
     \<and> set (map tr_key trs) = trend_key cal ` {t \<in> set db. user t = uid \<and> cutoff \<le> date t}
     \<and> (\<forall>g\<in>set trs. trend_members cal db uid cutoff g \<noteq> []
           \<and> tr_total g = sum_list (map amount (trend_members cal db uid cutoff g))
           \<and> tr_count g = length (trend_members cal db uid cutoff g))"
proof -
  let ?M = "filter (trend_matches uid (Time cutoff)) db"
  let ?gs = "map mk_trend (group_by (trend_key cal) ?M)"
  let ?trs = "sort_by trend_le ?gs"
  have r: "getMonthlyTrends cal db uid months = Success ?trs"
    using cut by (simp add: getMonthlyTrends_def Transaction_getMonthlyTrends_def months_of_def)
  have m: "mset ?trs = mset ?gs" by (rule mset_sort_by)
  then have "mset (map tr_key ?trs) = mset (map tr_key ?gs)" by (metis mset_map)
  then have k: "mset (map tr_key ?trs) = mset (remdups (map (trend_key cal) ?M))"
    by (simp only: trend_keys)
  then have d: "distinct (map tr_key ?trs)" by (metis distinct_remdups mset_eq_imp_distinct_iff)
  have "set (map tr_key ?trs) = trend_key cal ` set ?M"
    using k by (metis set_mset_mset set_remdups set_map)
  moreover have "set ?M = {t \<in> set db. user t = uid \<and> cutoff \<le> date t}"
    by (auto simp: trend_matches_def)
  ultimately have ks: "set (map tr_key ?trs)
      = trend_key cal ` {t \<in> set db. user t = uid \<and> cutoff \<le> date t}" by simp
  have s: "sorted_wrt trend_le ?trs" by (rule sorted_sort_by[OF trend_le_preorder])
  have st: "set ?trs = set ?gs" using m by (metis set_mset_mset)
  have g: "\<forall>g\<in>set ?trs. trend_members cal db uid cutoff g \<noteq> []
           \<and> tr_total g = sum_list (map amount (trend_members cal db uid cutoff g))
           \<and> tr_count g = length (trend_members cal db uid cutoff g)"
  proof
    fix g assume "g \<in> set ?trs"
    then have gm: "g \<in> set ?gs" using st by simp
    from trend_member[OF gm] have e: "g = mk_trend (tr_key g, filter (\<lambda>x. trend_key cal x = tr_key g) ?M)"
      and i: "tr_key g \<in> trend_key cal ` set ?M" by blast+
    have f: "filter (\<lambda>x. trend_key cal x = tr_key g) ?M = trend_members cal db uid cutoff g"
      unfolding trend_members_def
      by (auto simp: trend_matches_def trend_key_def tr_key_def intro: filter_cong)
    from i have ne: "filter (\<lambda>x. trend_key cal x = tr_key g) ?M \<noteq> []"
      by (auto simp: filter_empty_conv)
    from e have "tr_total g = tr_total (mk_trend (tr_key g, trend_members cal db uid cutoff g))"
      "tr_count g = tr_count (mk_trend (tr_key g, trend_members cal db uid cutoff g))"
      unfolding f by simp_all
    with ne f show "trend_members cal db uid cutoff g \<noteq> []
           \<and> tr_total g = sum_list (map amount (trend_members cal db uid cutoff g))
           \<and> tr_count g = length (trend_members cal db uid cutoff g)"
      by (simp add: mk_trend_def)
  qed
  from r s d ks g show ?thesis by blast
qed

theorem monthly_trends_contract_witness:
  "minus_months (utc_calendar 1706745600000) (now (utc_calendar 1706745600000)) (months_of (Some 1))
     = Time 1704067200000
   \<and> getMonthlyTrends (utc_calendar 1706745600000) sample_db userA (Some 1) = Success
       [\<lparr>tr_year = 2024, tr_month = 1, tr_type = ''expense'', tr_total = 775, tr_count = 3\<rparr>,
        \<lparr>tr_year = 2024, tr_month = 1, tr_type = ''income'', tr_total = 1000, tr_count = 1\<rparr>]
   \<and> trend_members (utc_calendar 1706745600000) sample_db userA 1704067200000
        \<lparr>tr_year = 2024, tr_month = 1, tr_type = ''expense'', tr_total = 775, tr_count = 3\<rparr>
       = [T1, T3, T4]"
proof -
  have c: "minus_months (utc_calendar 1706745600000) (now (utc_calendar 1706745600000))
             (months_of (Some 1)) = Time 1704067200000"
    by (simp add: utc_calendar_def months_of_def utc_sample_dates)
  have v: "getMonthlyTrends (utc_calendar 1706745600000) sample_db userA (Some 1) = Success
       [\<lparr>tr_year = 2024, tr_month = 1, tr_type = ''expense'', tr_total = 775, tr_count = 3\<rparr>,
        \<lparr>tr_year = 2024, tr_month = 1, tr_type = ''income'', tr_total = 1000, tr_count = 1\<rparr>]"
    by (simp add: getMonthlyTrends_def Transaction_getMonthlyTrends_def utc_calendar_def
        sample_defs utc_sample_dates trend_matches_def group_by_def trend_key_def mk_trend_def
        sort_by_def trend_le_def)
  have m: "trend_members (utc_calendar 1706745600000) sample_db userA 1704067200000
        \<lparr>tr_year = 2024, tr_month = 1, tr_type = ''expense'', tr_total = 775, tr_count = 3\<rparr>
       = [T1, T3, T4]"
    by (simp add: trend_members_def utc_calendar_def sample_defs utc_sample_dates)
  from monthly_trends_contract [OF c, of sample_db userA] v m c show ?thesis
    by simp
qed

text \<open>With the default of 12 months the expense of November 2023 forms a group of its own.\<close>

lemma monthly_trends_default:
  "getMonthlyTrends (utc_calendar 1706745600000) sample_db userA None = Success
       [\<lparr>tr_year = 2023, tr_month = 11, tr_type = ''expense'', tr_total = 30, tr_count = 1\<rparr>,
        \<lparr>tr_year = 2024, tr_month = 1, tr_type = ''expense'', tr_total = 775, tr_count = 3\<rparr>,
        \<lparr>tr_year = 2024, tr_month = 1, tr_type = ''income'', tr_total = 1000, tr_count = 1\<rparr>]"
  by (simp add: getMonthlyTrends_def Transaction_getMonthlyTrends_def utc_calendar_def
      sample_defs utc_sample_dates trend_matches_def group_by_def trend_key_def mk_trend_def
      sort_by_def trend_le_def)

subsection \<open>Pagination\<close>

lemma getTransactions_failed:
  "check_filter rx (build_query uid q) \<noteq> None \<Longrightarrow>
     getTransactions rx ord srt db uid q = Failed 500 ''Server error fetching transactions''"
  by (auto simp: getTransactions_def find_page_def find_docs_def Let_def)

lemma getTransactions_success:
  assumes ok: "check_filter rx (build_query uid q) = None" and pg: "1 \<le> page_of q"
  shows "getTransactions rx ord srt db uid q =
     Success \<lparr> data = (if limit_of q = 0 then drop ((page_of q - 1) * limit_of q)
                                              (sorted_matching rx ord srt db uid q)
                       else take (limit_of q) (drop ((page_of q - 1) * limit_of q)
                                              (sorted_matching rx ord srt db uid q))),
               pagination =
                 \<lparr> currentPage = page_of q,
                   totalPages = ceil_div (length (list_matching rx db uid q)) (limit_of q),
                   totalItems = length (list_matching rx db uid q),
                   itemsPerPage = limit_of q,
                   hasNextPage = js_less (int (page_of q))
                       (ceil_div (length (list_matching rx db uid q)) (limit_of q)),
                   hasPrevPage = (page_of q > 1) \<rparr> \<rparr>"
proof -
  have "0 \<le> (int (page_of q) - 1) * int (limit_of q)"
    using pg by (intro mult_nonneg_nonneg) simp_all
  then have s: "\<not> (int (page_of q) - 1) * int (limit_of q) < 0" by simp
  have "(int (page_of q) - 1) * int (limit_of q) = int ((page_of q - 1) * limit_of q)"
    using pg by (simp add: of_nat_diff)
  then have n: "nat ((int (page_of q) - 1) * int (limit_of q)) = (page_of q - 1) * limit_of q"
    by (simp only: nat_int)
  have fp: "find_page rx srt (build_query uid q) (sort_cmp ord (q_sortBy q) (q_sortOrder q))
              ((int (page_of q) - 1) * int (limit_of q)) (limit_of q) db
            = Inr (if limit_of q = 0 then drop ((page_of q - 1) * limit_of q)
                                              (sorted_matching rx ord srt db uid q)
                   else take (limit_of q) (drop ((page_of q - 1) * limit_of q)
                                              (sorted_matching rx ord srt db uid q)))"
    unfolding find_page_def find_docs_def skip_limit_def sorted_matching_def list_matching_def
      list_cmp_def
    using ok s n by simp
  have cd: "countDocuments rx (build_query uid q) db = Inr (length (list_matching rx db uid q))"
    unfolding countDocuments_def list_matching_def using ok by simp
  show ?thesis
    unfolding getTransactions_def Let_def
    unfolding page_of_def[symmetric] limit_of_def[symmetric]
    by (simp only: fp cd sum.case)
qed

text \<open>Page 0 of a positive page size asks the store for a negative skip.\<close>

lemma getTransactions_page_zero:
  assumes "page_of q = 0" and "1 \<le> limit_of q"
  shows "getTransactions rx ord srt db uid q = Failed 500 ''Server error fetching transactions''"
proof -
  have "(int (page_of q) - 1) * int (limit_of q) < 0"
    using assms by (simp add: mult_less_0_iff)
  then have "find_page rx srt (build_query uid q) (sort_cmp ord (q_sortBy q) (q_sortOrder q))
              ((int (page_of q) - 1) * int (limit_of q)) (limit_of q) db
             = Inl (case check_filter rx (build_query uid q) of Some e \<Rightarrow> e
                    | None \<Rightarrow> MongoServerError)"
    unfolding find_page_def find_docs_def skip_limit_def by (simp split: option.split)
  then show ?thesis
    unfolding getTransactions_def Let_def
    unfolding page_of_def[symmetric] limit_of_def[symmetric]
    by (simp only: sum.case)
qed

lemma getTransactions_cases:
  "getTransactions rx ord srt db uid q = Failed 500 ''Server error fetching transactions''
   \<or> (\<exists>r. getTransactions rx ord srt db uid q = Success r)"
  unfolding getTransactions_def Let_def by (simp split: sum.split)

lemma ceil_pages:
  fixes n L :: nat
  assumes "0 < L"
  shows "n \<le> nat \<lceil>(of_nat n :: rat) / of_nat L\<rceil> * L"
    and "(int N < \<lceil>(of_nat n :: rat) / of_nat L\<rceil>) = (N * L < n)"
    and "0 \<le> \<lceil>(of_nat n :: rat) / of_nat L\<rceil>"
proof -
  have pos: "(0::rat) < of_nat L" using assms by simp
  show nonneg: "0 \<le> \<lceil>(of_nat n :: rat) / of_nat L\<rceil>"
    by (metis ceiling_mono ceiling_zero divide_nonneg_nonneg of_nat_0_le_iff)
  have "(of_nat n :: rat) \<le> of_int \<lceil>(of_nat n :: rat) / of_nat L\<rceil> * of_nat L"
    using ceiling_divide_upper[OF pos] by blast
  also have "\<dots> = of_nat (nat \<lceil>(of_nat n :: rat) / of_nat L\<rceil> * L)"
    using nonneg by simp
  finally show "n \<le> nat \<lceil>(of_nat n :: rat) / of_nat L\<rceil> * L"
    using of_nat_le_iff by blast
  have "(int N < \<lceil>(of_nat n :: rat) / of_nat L\<rceil>) = ((of_nat N :: rat) < of_nat n / of_nat L)"
    by (simp add: less_ceiling_iff)
  also have "\<dots> = ((of_nat N :: rat) * of_nat L < of_nat n)"
    using pos by (simp add: pos_less_divide_eq)
  also have "\<dots> = (N * L < n)"
    by (metis of_nat_less_iff of_nat_mult)
  finally show "(int N < \<lceil>(of_nat n :: rat) / of_nat L\<rceil>) = (N * L < n)" .
qed

lemma ceil_div_eval: "0 < L \<Longrightarrow> ceil_div n L = Num (- (- int n div int L))"
proof -
  have "\<lceil>(of_int (int n) :: rat) / of_int (int L)\<rceil> = - (- int n div int L)"
    by (rule ceiling_divide_eq_div)
  then show "0 < L \<Longrightarrow> ceil_div n L = Num (- (- int n div int L))"
    by (simp add: ceil_div_def)
qed

lemma concat_pages1:
  "concat (map (\<lambda>k. take L (drop ((k - 1) * L) S)) [1..<Suc P]) = take (P * L) S"
proof (induction P)
  case 0
  then show ?case by simp
next
  case (Suc P)
  have "[1..<Suc (Suc P)] = [1..<Suc P] @ [Suc P]" by simp
  then have "concat (map (\<lambda>k. take L (drop ((k - 1) * L) S)) [1..<Suc (Suc P)])
      = concat (map (\<lambda>k. take L (drop ((k - 1) * L) S)) [1..<Suc P]) @ take L (drop (P * L) S)"
    by (simp del: upt_Suc)
  also have "\<dots> = take (P * L) S @ take L (drop (P * L) S)" using Suc by (simp only:)
  also have "\<dots> = take (Suc P * L) S"
    using take_add[of "P * L" L S] by (simp add: add.commute)
  finally show ?case .
qed

lemma pages_cover:
  assumes "\<And>k. 1 \<le> k \<Longrightarrow> f k = take L (drop ((k - 1) * L) S)" and "length S \<le> P * L"
  shows "concat (map f [1..<Suc P]) = S"
proof -
  have "map f [1..<Suc P] = map (\<lambda>k. take L (drop ((k - 1) * L) S)) [1..<Suc P]"
    using assms(1) by (intro map_cong) auto
  then have "concat (map f [1..<Suc P]) = take (P * L) S"
    by (simp only: concat_pages1)
  with assms(2) show ?thesis by simp
qed

lemma build_query_page: "build_query uid (q\<lparr> q_page := Some k \<rparr>) = build_query uid q"
  by (simp add: build_query_def)

lemma page_data_slice:
  assumes ok: "check_filter rx (build_query uid q) = None" and k: "1 \<le> k" and lm: "1 \<le> limit_of q"
  shows "page_data rx ord srt db uid q k
         = take (limit_of q) (drop ((k - 1) * limit_of q) (sorted_matching rx ord srt db uid q))"
proof -
  let ?q = "q\<lparr> q_page := Some k \<rparr>"
  have 1: "check_filter rx (build_query uid ?q) = None" using ok by (simp only: build_query_page)
  have 2: "page_of ?q = k" "limit_of ?q = limit_of q" by (simp_all add: page_of_def limit_of_def)
  have 3: "sorted_matching rx ord srt db uid ?q = sorted_matching rx ord srt db uid q"
    by (simp add: sorted_matching_def list_matching_def list_cmp_def build_query_page)
  have 4: "list_matching rx db uid ?q = list_matching rx db uid q"
    by (simp add: list_matching_def build_query_page)
  have "1 \<le> page_of ?q" using k 2 by simp
  from getTransactions_success[OF 1 this, of ord srt db] lm show ?thesis
    unfolding page_data_def 2 3 4 by simp
qed

lemma page_data_zero:
  assumes "1 \<le> limit_of q"
  shows "page_data rx ord srt db uid q 0 = []"
proof -
  let ?q = "q\<lparr> q_page := Some 0 \<rparr>"
  have "page_of ?q = 0" "1 \<le> limit_of ?q"
    using assms by (simp_all add: page_of_def limit_of_def)
  from getTransactions_page_zero[OF this]
  show ?thesis unfolding page_data_def by simp
qed

lemma sorted_matching_length:
  "sorts srt \<Longrightarrow> length (sorted_matching rx ord srt db uid q) = length (list_matching rx db uid q)"
  unfolding sorts_def sorted_matching_def by (metis size_mset)

lemma slice_nonempty: "0 < L \<Longrightarrow> (take L (drop a S) \<noteq> []) = (a < length S)"
  by auto

lemma pages_disjoint:
  assumes "distinct S"
  shows "set (take L (drop a S)) \<inter> set (take L (drop (a + L) S)) = {}"
proof -
  have d: "distinct (drop a S)" using assms by simp
  have "distinct (take L (drop a S) @ drop L (drop a S))"
    using d by (simp only: append_take_drop_id)
  then have 1: "set (take L (drop a S)) \<inter> set (drop L (drop a S)) = {}"
    by (simp only: distinct_append)
  have "drop L (drop a S) = drop (a + L) S"
    by (metis drop_drop add.commute)
  with 1 have 2: "set (take L (drop a S)) \<inter> set (drop (a + L) S) = {}" by (simp only:)
  have 3: "set (take L (drop (a + L) S)) \<subseteq> set (drop (a + L) S)" by (rule set_take_subset)
  from 2 3 show ?thesis by blast
qed

text \<open>
  Claim C4, for a page size of at least 1 and under a stable sort key. For a filter the
  store accepts, page N \<ge> 1, page size L \<ge> 1, a store order that is a total preorder on
  the sort key and a sort \<open>srt\<close> of the store, the reply holds the slice from offset
  (N - 1) * L, of at most L documents, of the sequence in which this call sorts the matching
  documents; that sequence is sorted under the requested order and is a permutation of the
  matching documents; totalPages is the ceiling of total / L; the next-page flag holds
  exactly when N * L < total, which is when page N + 1, fetched by any call, is not empty;
  the previous-page flag holds exactly when N > 1, which for N \<le> totalPages + 1 is when
  page N - 1 is not empty. When no two matching documents tie under the sort key, the pages
  1 .. totalPages, each fetched by a call of its own with a sort of its own, put end to end
  are the sorted sequence, so every matching document is on exactly one page, and in a
  store without duplicates the page is disjoint from page N + 1.
\<close>

theorem pagination_contract:
  assumes ok: "check_filter rx (build_query uid q) = None"
    and pg: "1 \<le> page_of q" and lm: "1 \<le> limit_of q"
    and st: "sorts srt"
    and tp: "total_preorder (ord (sort_key q))"
  shows "\<exists>r. getTransactions rx ord srt db uid q = Success r
     \<and> data r = take (limit_of q)
                   (drop ((page_of q - 1) * limit_of q) (sorted_matching rx ord srt db uid q))
     \<and> length (data r) \<le> limit_of q
     \<and> sorted_wrt (list_cmp ord q) (sorted_matching rx ord srt db uid q)
     \<and> mset (sorted_matching rx ord srt db uid q) = mset (list_matching rx db uid q)
     \<and> totalItems (pagination r) = length (list_matching rx db uid q)
     \<and> totalPages (pagination r)
         = Num \<lceil>(of_nat (totalItems (pagination r)) :: rat) / of_nat (limit_of q)\<rceil>
     \<and> (hasNextPage (pagination r) \<longleftrightarrow> page_of q * limit_of q < totalItems (pagination r))
     \<and> (hasPrevPage (pagination r) \<longleftrightarrow> 1 < page_of q)
     \<and> (\<forall>srt'. sorts srt' \<longrightarrow>
          (hasNextPage (pagination r) \<longleftrightarrow> page_data rx ord srt' db uid q (page_of q + 1) \<noteq> [])
          \<and> (int (page_of q)
                \<le> \<lceil>(of_nat (totalItems (pagination r)) :: rat) / of_nat (limit_of q)\<rceil> + 1 \<longrightarrow>
              (hasPrevPage (pagination r)
                 \<longleftrightarrow> page_data rx ord srt' db uid q (page_of q - 1) \<noteq> [])))
     \<and> (no_ties (list_cmp ord q) (list_matching rx db uid q) \<longrightarrow>
          (\<forall>srts. (\<forall>k. sorts (srts k)) \<longrightarrow>
             concat (map (\<lambda>k. page_data rx ord (srts k) db uid q k)
               [1..<Suc (nat \<lceil>(of_nat (totalItems (pagination r)) :: rat) / of_nat (limit_of q)\<rceil>)])
               = sorted_matching rx ord srt db uid q
             \<and> (distinct db \<longrightarrow>
                  set (data r)
                    \<inter> set (page_data rx ord (srts (page_of q + 1)) db uid q (page_of q + 1)) = {})))"
proof -
  let ?S = "sorted_matching rx ord srt db uid q"
  let ?M = "list_matching rx db uid q"
  let ?L = "limit_of q"
  let ?N = "page_of q"
  let ?n = "length ?M"
  let ?C = "\<lceil>(of_nat ?n :: rat) / of_nat ?L\<rceil>"
  let ?r = "\<lparr> data = take ?L (drop ((?N - 1) * ?L) ?S),
             pagination = \<lparr> currentPage = ?N, totalPages = ceil_div ?n ?L, totalItems = ?n,
               itemsPerPage = ?L, hasNextPage = js_less (int ?N) (ceil_div ?n ?L),
               hasPrevPage = (?N > 1) \<rparr> \<rparr>"
  have L0: "0 < ?L" using lm by simp
  have r: "getTransactions rx ord srt db uid q = Success ?r"
    using getTransactions_success[OF ok pg, of ord srt db] lm by simp
  have cmp: "total_preorder (list_cmp ord q)" using tp by (rule list_cmp_preorder)
  have len: "\<And>s. sorts s \<Longrightarrow> length (sorted_matching rx ord s db uid q) = ?n"
    by (rule sorted_matching_length)
  have cd: "ceil_div ?n ?L = Num ?C" using lm by (simp add: ceil_div_def)
  have pd: "\<And>k s. 1 \<le> k \<Longrightarrow>
      page_data rx ord s db uid q k = take ?L (drop ((k - 1) * ?L) (sorted_matching rx ord s db uid q))"
    using page_data_slice[OF ok _ lm] by blast
  have nx: "js_less (int ?N) (ceil_div ?n ?L) \<longleftrightarrow> ?N * ?L < ?n"
    using ceil_pages(2)[OF L0, of ?N ?n] cd by simp
  have srtd: "sorted_wrt (list_cmp ord q) ?S"
    using st cmp unfolding sorts_def sorted_matching_def by blast
  have ms: "mset ?S = mset ?M"
    using st unfolding sorts_def sorted_matching_def by blast
  have flags: "\<forall>srt'. sorts srt' \<longrightarrow>
          (js_less (int ?N) (ceil_div ?n ?L) \<longleftrightarrow> page_data rx ord srt' db uid q (?N + 1) \<noteq> [])
          \<and> (int ?N \<le> ?C + 1 \<longrightarrow>
              ((?N > 1) \<longleftrightarrow> page_data rx ord srt' db uid q (?N - 1) \<noteq> []))"
  proof (intro allI impI conjI)
    fix srt' assume s': "sorts srt'"
    let ?S' = "sorted_matching rx ord srt' db uid q"
    have "page_data rx ord srt' db uid q (?N + 1) = take ?L (drop (?N * ?L) ?S')"
      using pd[of "?N + 1" srt'] by simp
    moreover have "take ?L (drop (?N * ?L) ?S') \<noteq> [] \<longleftrightarrow> ?N * ?L < ?n"
      using slice_nonempty[OF L0, of "?N * ?L" ?S'] len[OF s'] by simp
    ultimately show "js_less (int ?N) (ceil_div ?n ?L)
        \<longleftrightarrow> page_data rx ord srt' db uid q (?N + 1) \<noteq> []"
      using nx by (simp only:)
    assume le: "int ?N \<le> ?C + 1"
    show "(?N > 1) \<longleftrightarrow> page_data rx ord srt' db uid q (?N - 1) \<noteq> []"
    proof (cases "?N > 1")
      case False
      then have "?N - 1 = 0" by simp
      then have "page_data rx ord srt' db uid q (?N - 1) = []"
        using page_data_zero[OF lm, of rx ord srt' db uid] by simp
      with False show ?thesis by simp
    next
      case True
      then have k: "1 \<le> ?N - 1" by simp
      have "int (?N - 1 - 1) < ?C" using le True by linarith
      then have "(?N - 1 - 1) * ?L < ?n"
        using ceil_pages(2)[OF L0, of "?N - 1 - 1" ?n] by simp
      then have "take ?L (drop ((?N - 1 - 1) * ?L) ?S') \<noteq> []"
        using slice_nonempty[OF L0, of "(?N - 1 - 1) * ?L" ?S'] len[OF s'] by simp
      then have "page_data rx ord srt' db uid q (?N - 1) \<noteq> []"
        using pd[OF k, of srt'] by simp
      with True show ?thesis by simp
    qed
  qed
  have stable: "no_ties (list_cmp ord q) ?M \<longrightarrow>
          (\<forall>srts. (\<forall>k. sorts (srts k)) \<longrightarrow>
             concat (map (\<lambda>k. page_data rx ord (srts k) db uid q k) [1..<Suc (nat ?C)]) = ?S
             \<and> (distinct db \<longrightarrow>
                  set (take ?L (drop ((?N - 1) * ?L) ?S))
                    \<inter> set (page_data rx ord (srts (?N + 1)) db uid q (?N + 1)) = {}))"
  proof (intro allI impI conjI)
    fix srts :: "nat \<Rightarrow> store_sort"
    assume nt: "no_ties (list_cmp ord q) ?M" and ss: "\<forall>k. sorts (srts k)"
    have same: "\<And>k. sorted_matching rx ord (srts k) db uid q = ?S"
      unfolding sorted_matching_def using sorts_agree[OF _ st cmp nt] ss by blast
    have pk: "\<And>k. 1 \<le> k \<Longrightarrow>
        page_data rx ord (srts k) db uid q k = take ?L (drop ((k - 1) * ?L) ?S)"
      using pd same by simp
    have "length ?S \<le> nat ?C * ?L" using ceil_pages(1)[OF L0, of ?n] len[OF st] by simp
    then show "concat (map (\<lambda>k. page_data rx ord (srts k) db uid q k) [1..<Suc (nat ?C)]) = ?S"
      using pk by (intro pages_cover) simp_all
    assume "distinct db"
    then have "distinct ?M" by (simp add: list_matching_def)
    then have "distinct ?S" using mset_eq_imp_distinct_iff[OF ms] by simp
    from pages_disjoint[OF this, of ?L "(?N - 1) * ?L"]
    have "set (take ?L (drop ((?N - 1) * ?L) ?S))
            \<inter> set (take ?L (drop ((?N - 1) * ?L + ?L) ?S)) = {}" .
    moreover have "(?N - 1) * ?L + ?L = ?N * ?L"
      using pg by (cases ?N) simp_all
    moreover have "page_data rx ord (srts (?N + 1)) db uid q (?N + 1) = take ?L (drop (?N * ?L) ?S)"
      using pk[of "?N + 1"] by simp
    ultimately show "set (take ?L (drop ((?N - 1) * ?L) ?S))
        \<inter> set (page_data rx ord (srts (?N + 1)) db uid q (?N + 1)) = {}"
      by (simp only:)
  qed
  show ?thesis
  proof (intro exI[of _ ?r] conjI)
    show "getTransactions rx ord srt db uid q = Success ?r" by (rule r)
    show "data ?r = take ?L (drop ((?N - 1) * ?L) ?S)" by simp
    show "length (data ?r) \<le> ?L" by simp
    show "sorted_wrt (list_cmp ord q) ?S" by (rule srtd)
    show "mset ?S = mset ?M" by (rule ms)
    show "totalItems (pagination ?r) = ?n" by simp
    show "totalPages (pagination ?r)
         = Num \<lceil>(of_nat (totalItems (pagination ?r)) :: rat) / of_nat ?L\<rceil>"
      using cd by simp
    show "hasNextPage (pagination ?r) \<longleftrightarrow> ?N * ?L < totalItems (pagination ?r)"
      using nx by simp
    show "hasPrevPage (pagination ?r) \<longleftrightarrow> 1 < ?N" by simp
    show "\<forall>srt'. sorts srt' \<longrightarrow>
          (hasNextPage (pagination ?r) \<longleftrightarrow> page_data rx ord srt' db uid q (?N + 1) \<noteq> [])
          \<and> (int ?N \<le> \<lceil>(of_nat (totalItems (pagination ?r)) :: rat) / of_nat ?L\<rceil> + 1 \<longrightarrow>
              (hasPrevPage (pagination ?r) \<longleftrightarrow> page_data rx ord srt' db uid q (?N - 1) \<noteq> []))"
      using flags by simp
    show "no_ties (list_cmp ord q) ?M \<longrightarrow>
          (\<forall>srts. (\<forall>k. sorts (srts k)) \<longrightarrow>
             concat (map (\<lambda>k. page_data rx ord (srts k) db uid q k)
               [1..<Suc (nat \<lceil>(of_nat (totalItems (pagination ?r)) :: rat) / of_nat ?L\<rceil>)]) = ?S
             \<and> (distinct db \<longrightarrow>
                  set (data ?r)
                    \<inter> set (page_data rx ord (srts (?N + 1)) db uid q (?N + 1)) = {}))"
      using stable by simp
  qed
qed

lemma sample_matching:
  "list_matching dot_engine sample_db userA second_page = [T1, T2, T3, T4, T6]"
  by (simp add: list_matching_def build_query_def type_term_def
      pattern_term_def doc_matches_def second_page_def no_params_def sample_defs)

lemma sample_sorted:
  "sorted_matching dot_engine core_order sort_by sample_db userA second_page
     = [T4, T3, T2, T1, T6]"
  unfolding sorted_matching_def sample_matching
  by (simp add: sort_by_def list_cmp_def sort_cmp_def core_order_def second_page_def
      no_params_def sample_defs)

lemma sample_no_ties:
  "no_ties (list_cmp core_order second_page)
     (list_matching dot_engine sample_db userA second_page)"
  unfolding sample_matching
  by (simp add: no_ties_def list_cmp_def sort_cmp_def core_order_def second_page_def
      no_params_def sample_defs)

lemmas engine_defs = dot_engine_def metachar_def lower_def ci_occurs_def plain_def

theorem pagination_contract_witness:
  "check_filter dot_engine (build_query userA second_page) = None
   \<and> 1 \<le> page_of second_page \<and> 1 \<le> limit_of second_page
   \<and> sorts sort_by \<and> total_preorder (core_order (sort_key second_page))
   \<and> no_ties (list_cmp core_order second_page)
        (list_matching dot_engine sample_db userA second_page)
   \<and> distinct sample_db
   \<and> getTransactions dot_engine core_order sort_by sample_db userA second_page
       = Success \<lparr> data = [T2, T1],
                   pagination = \<lparr> currentPage = 2, totalPages = Num 3, totalItems = 5,
                                  itemsPerPage = 2, hasNextPage = True, hasPrevPage = True \<rparr> \<rparr>
   \<and> page_data dot_engine core_order sort_by sample_db userA second_page 1 = [T4, T3]
   \<and> page_data dot_engine core_order sort_by sample_db userA second_page 3 = [T6]
   \<and> concat (map (page_data dot_engine core_order sort_by sample_db userA second_page)
        [1..<Suc 3]) = [T4, T3, T2, T1, T6]"
proof -
  have ok: "check_filter dot_engine (build_query userA second_page) = None"
    by (simp add: check_filter_def build_query_def pattern_term_def second_page_def no_params_def)
  have pg: "1 \<le> page_of second_page" and lm: "1 \<le> limit_of second_page"
    by (simp_all add: page_of_def limit_of_def second_page_def no_params_def)
  have pl: "page_of second_page = 2" "limit_of second_page = 2"
    by (simp_all add: page_of_def limit_of_def second_page_def no_params_def)
  have tp: "total_preorder (core_order (sort_key second_page))"
    by (rule core_order_preorder)
  have di: "distinct sample_db" by (simp add: sample_defs)
  have ln: "length (list_matching dot_engine sample_db userA second_page) = 5"
    unfolding sample_matching by simp
  have v: "getTransactions dot_engine core_order sort_by sample_db userA second_page
       = Success \<lparr> data = [T2, T1],
                   pagination = \<lparr> currentPage = 2, totalPages = Num 3, totalItems = 5,
                                  itemsPerPage = 2, hasNextPage = True, hasPrevPage = True \<rparr> \<rparr>"
    using getTransactions_success[OF ok pg, of core_order sort_by sample_db]
    unfolding sample_sorted pl ln
    by (simp add: ceil_div_eval)
  have p1: "page_data dot_engine core_order sort_by sample_db userA second_page 1 = [T4, T3]"
    using page_data_slice[OF ok _ lm, of 1 core_order sort_by sample_db]
    unfolding sample_sorted pl by simp
  have p3: "page_data dot_engine core_order sort_by sample_db userA second_page 3 = [T6]"
    using page_data_slice[OF ok _ lm, of 3 core_order sort_by sample_db]
    unfolding sample_sorted pl by simp
  from pagination_contract [where rx = dot_engine and uid = userA and q = second_page
      and srt = sort_by and ord = core_order and db = sample_db, OF ok pg lm sorts_sort_by tp]
  obtain r where
    r: "getTransactions dot_engine core_order sort_by sample_db userA second_page = Success r"
    and cov: "no_ties (list_cmp core_order second_page)
        (list_matching dot_engine sample_db userA second_page) \<longrightarrow>
          (\<forall>srts. (\<forall>k. sorts (srts k)) \<longrightarrow>
             concat (map (\<lambda>k. page_data dot_engine core_order (srts k) sample_db userA second_page k)
               [1..<Suc (nat \<lceil>(of_nat (totalItems (pagination r)) :: rat)
                                / of_nat (limit_of second_page)\<rceil>)])
               = sorted_matching dot_engine core_order sort_by sample_db userA second_page
             \<and> (distinct sample_db \<longrightarrow>
                  set (data r)
                    \<inter> set (page_data dot_engine core_order (srts (page_of second_page + 1))
                             sample_db userA second_page (page_of second_page + 1)) = {}))"
    by (elim exE conjE)
  from r v have ti: "totalItems (pagination r) = 5" by auto
  have c3: "nat \<lceil>(of_nat 5 :: rat) / of_nat 2\<rceil> = 3"
    using ceil_div_eval[of 2 5] by (simp add: ceil_div_def)
  from cov sample_no_ties
  have "\<forall>srts. (\<forall>k. sorts (srts k)) \<longrightarrow>
             concat (map (\<lambda>k. page_data dot_engine core_order (srts k) sample_db userA second_page k)
               [1..<Suc 3])
               = sorted_matching dot_engine core_order sort_by sample_db userA second_page"
    unfolding ti pl c3 by blast
  from this[rule_format, of "\<lambda>k. sort_by"] sorts_sort_by
  have cc: "concat (map (page_data dot_engine core_order sort_by sample_db userA second_page)
        [1..<Suc 3]) = [T4, T3, T2, T1, T6]"
    unfolding sample_sorted by simp
  show ?thesis
    by (intro conjI ok pg lm sorts_sort_by tp sample_no_ties di v p1 p3 cc)
qed

text \<open>
  Claim C4 as stated fails in two places. At page size 0 the store reads the limit 0 as no
  limit, so both documents come back on a page of size 0, and the page count is not a
  number of pages. At page 5 of five documents in pages of 2 the previous-page flag is
  set, while page 4 holds no document.
\<close>

theorem page_size_zero_and_page_past_end:
  "limit_of zero_limit = 0
   \<and> getTransactions dot_engine core_order sort_by [T1, T2] userA zero_limit
       = Success \<lparr> data = [T2, T1],
                   pagination = \<lparr> currentPage = 1, totalPages = Infinity, totalItems = 2,
                                  itemsPerPage = 0, hasNextPage = True, hasPrevPage = False \<rparr> \<rparr>
   \<and> page_of fifth_page = 5 \<and> limit_of fifth_page = 2
   \<and> getTransactions dot_engine core_order sort_by sample_db userA fifth_page
       = Success \<lparr> data = [],
                   pagination = \<lparr> currentPage = 5, totalPages = Num 3, totalItems = 5,
                                  itemsPerPage = 2, hasNextPage = False, hasPrevPage = True \<rparr> \<rparr>
   \<and> page_data dot_engine core_order sort_by sample_db userA fifth_page 4 = []"
proof -
  have z: "getTransactions dot_engine core_order sort_by [T1, T2] userA zero_limit
       = Success \<lparr> data = [T2, T1],
                   pagination = \<lparr> currentPage = 1, totalPages = Infinity, totalItems = 2,
                                  itemsPerPage = 0, hasNextPage = True, hasPrevPage = False \<rparr> \<rparr>"
    by (simp add: getTransactions_def find_page_def find_docs_def countDocuments_def
      check_filter_def skip_limit_def ceil_div_def limit_of_def zero_limit_def no_params_def
      build_query_def type_term_def pattern_term_def doc_matches_def sort_by_def sort_cmp_def
      core_order_def T1_def T2_def userA_def)
  have ok: "check_filter dot_engine (build_query userA fifth_page) = None"
    by (simp add: check_filter_def build_query_def pattern_term_def fifth_page_def no_params_def)
  have pl: "page_of fifth_page = 5" "limit_of fifth_page = 2"
    by (simp_all add: page_of_def limit_of_def fifth_page_def no_params_def)
  have m: "list_matching dot_engine sample_db userA fifth_page = [T1, T2, T3, T4, T6]"
    by (simp add: list_matching_def build_query_def type_term_def
      pattern_term_def doc_matches_def fifth_page_def no_params_def sample_defs)
  have s: "sorted_matching dot_engine core_order sort_by sample_db userA fifth_page
     = [T4, T3, T2, T1, T6]"
    unfolding sorted_matching_def m
    by (simp add: sort_by_def list_cmp_def sort_cmp_def core_order_def fifth_page_def
      no_params_def sample_defs)
  have f: "getTransactions dot_engine core_order sort_by sample_db userA fifth_page
       = Success \<lparr> data = [],
                   pagination = \<lparr> currentPage = 5, totalPages = Num 3, totalItems = 5,
                                  itemsPerPage = 2, hasNextPage = False, hasPrevPage = True \<rparr> \<rparr>"
    using getTransactions_success[OF ok, of core_order sort_by sample_db]
    unfolding s pl m
    by (simp add: ceil_div_eval)
  have p4: "page_data dot_engine core_order sort_by sample_db userA fifth_page 4 = []"
    using page_data_slice[OF ok, of 4 core_order sort_by sample_db]
    unfolding s pl by simp
  have l0: "limit_of zero_limit = 0" by (simp add: limit_of_def zero_limit_def no_params_def)
  show ?thesis by (intro conjI l0 z pl f p4)
qed

subsection \<open>Malformed dates in a list request\<close>

text \<open>
  Claim C8, as the code has it. A list request whose startDate or endDate is not a
  well-formed date fails with the generic server error (status 500); the list controller
  has no validation error among its replies.
\<close>

theorem list_malformed_date:
  "(q_startDate q = Some InvalidDate \<or> q_endDate q = Some InvalidDate
      \<longrightarrow> getTransactions rx ord srt db uid q = Failed 500 ''Server error fetching transactions'')
   \<and> \<not> is_validation_error (getTransactions rx ord srt db uid q)"
proof
  show "q_startDate q = Some InvalidDate \<or> q_endDate q = Some InvalidDate
      \<longrightarrow> getTransactions rx ord srt db uid q = Failed 500 ''Server error fetching transactions''"
  proof
    assume "q_startDate q = Some InvalidDate \<or> q_endDate q = Some InvalidDate"
    then have "check_filter rx (build_query uid q) = Some CastError"
      by (auto simp: check_filter_def build_query_def)
    then show "getTransactions rx ord srt db uid q = Failed 500 ''Server error fetching transactions''"
      using getTransactions_failed by simp
  qed
  show "\<not> is_validation_error (getTransactions rx ord srt db uid q)"
    using getTransactions_cases[of rx ord srt db uid q] by auto
qed

theorem list_malformed_date_witness:
  "q_endDate bad_end = Some InvalidDate
   \<and> getTransactions dot_engine core_order sort_by sample_db userA bad_end
       = Failed 500 ''Server error fetching transactions''"
proof -
  have "q_endDate bad_end = Some InvalidDate" by (simp add: bad_end_def no_params_def)
  with list_malformed_date [where q = bad_end and rx = dot_engine and ord = core_order
      and srt = sort_by and db = sample_db and uid = userA] show ?thesis by blast
qed

text \<open>
  Claim C8 as stated fails: the reply to a malformed startDate is not a validation error.
\<close>

theorem malformed_date_not_validation_error:
  "q_startDate bad_start = Some InvalidDate
   \<and> getTransactions dot_engine core_order sort_by sample_db userA bad_start
       = Failed 500 ''Server error fetching transactions''
   \<and> \<not> is_validation_error (getTransactions dot_engine core_order sort_by sample_db userA bad_start)"
  by (simp add: getTransactions_def find_page_def find_docs_def check_filter_def
      build_query_def bad_start_def no_params_def)

subsection \<open>Free-text search\<close>

lemma starts_with_iff: "starts_with p s \<longleftrightarrow> (\<exists>b. s = p @ b)"
  by (induction p s rule: starts_with.induct) auto

lemma occurs_in_iff: "occurs_in p s \<longleftrightarrow> (\<exists>a b. s = a @ p @ b)"
proof (induction s)
  case Nil
  then show ?case by auto
next
  case (Cons c cs)
  show ?case
  proof
    assume "occurs_in p (c # cs)"
    then consider "starts_with p (c # cs)" | "occurs_in p cs" by auto
    then show "\<exists>a b. c # cs = a @ p @ b"
    proof cases
      case 1
      then obtain b where "c # cs = p @ b" using starts_with_iff by blast
      then have "c # cs = [] @ p @ b" by simp
      then show ?thesis by blast
    next
      case 2
      then obtain a b where "cs = a @ p @ b" using Cons.IH by blast
      then have "c # cs = (c # a) @ p @ b" by simp
      then show ?thesis by blast
    qed
  next
    assume "\<exists>a b. c # cs = a @ p @ b"
    then obtain a b where ab: "c # cs = a @ p @ b" by blast
    show "occurs_in p (c # cs)"
    proof (cases a)
      case Nil
      with ab have "starts_with p (c # cs)" using starts_with_iff by fastforce
      then show ?thesis by simp
    next
      case (Cons a0 as)
      with ab have "cs = as @ p @ b" by simp
      then have "occurs_in p cs" using Cons.IH by blast
      then show ?thesis by simp
    qed
  qed
qed

lemma dot_at_plain:
  "plain p \<Longrightarrow> dot_at p s = starts_with (map lower p) (map lower s)"
proof (induction p s rule: dot_at.induct)
  case (3 p ps c cs)
  then have "p \<noteq> CHR ''.''" by (auto simp: plain_def metachar_def)
  with 3 show ?case by (simp add: plain_def)
qed simp_all

lemma dot_search_plain: "plain p \<Longrightarrow> dot_search p s = ci_occurs p s"
  unfolding ci_occurs_def
proof (induction s)
  case Nil
  then show ?case using dot_at_plain[of p "[]"] by (cases p) simp_all
next
  case (Cons c cs)
  then show ?case using dot_at_plain[of p "c # cs"] by simp
qed

lemma dot_engine_literal: "literal_engine dot_engine"
  unfolding literal_engine_def dot_engine_def plain_def
  by (auto simp: fun_eq_iff dot_search_plain plain_def list_all_iff)

lemma rx_test_literal:
  "literal_engine rx \<Longrightarrow> plain s \<Longrightarrow> rx_test rx s fld = field_has s fld"
  by (simp add: literal_engine_def rx_test_def field_has_def split: option.split)

lemma doc_matches_search:
  assumes "literal_engine rx" "plain s" "s \<noteq> []"
  shows "doc_matches rx (build_query uid (q\<lparr> q_search := Some s \<rparr>)) t
         = (doc_matches rx (build_query uid (q\<lparr> q_search := None \<rparr>)) t \<and> search_hit s t)"
proof -
  have 1: "build_query uid (q\<lparr> q_search := Some s \<rparr>)
           = (build_query uid (q\<lparr> q_search := None \<rparr>))\<lparr> f_or := Some s \<rparr>"
    using assms(3) by (simp add: build_query_def pattern_term_def)
  have 2: "f_or (build_query uid (q\<lparr> q_search := None \<rparr>)) = None"
    by (simp add: build_query_def pattern_term_def)
  have 3: "rx_test rx s (Some (category t)) = ci_occurs s (category t)"
    using rx_test_literal[OF assms(1,2)] by (simp add: field_has_def)
  show ?thesis
    unfolding 1 doc_matches_def using 2 3 rx_test_literal[OF assms(1,2)]
    by (auto simp: search_hit_def)
qed

lemma doc_matches_user_only:
  assumes "q_type q = None" "q_category q = None" "q_startDate q = None" "q_endDate q = None"
  shows "doc_matches rx (build_query uid (q\<lparr> q_search := None \<rparr>)) t = (user t = uid)"
  using assms by (simp add: doc_matches_def build_query_def pattern_term_def type_term_def)

lemma check_filter_search:
  assumes "literal_engine rx" "plain s" "s \<noteq> []"
    "q_category q = None" "q_startDate q = None" "q_endDate q = None"
  shows "check_filter rx (build_query uid (q\<lparr> q_search := Some s \<rparr>)) = None"
proof -
  have "rx s \<noteq> None" using assms(1,2) by (simp add: literal_engine_def)
  then show ?thesis
    using assms(3-6) by (simp add: check_filter_def build_query_def pattern_term_def)
qed

text \<open>
  Claim C10, for a search string without metacharacters. Under an engine that reads such a
  pattern as a case-insensitive substring test, a non-empty search string adds to the
  filter exactly the condition that it occurs, ignoring case, in the description, the
  category or the notes; with no other filter the reply pages through exactly the
  transactions of the user with such an occurrence. An empty search string gives the reply
  of the request without the parameter.
\<close>

theorem search_contract:
  "(literal_engine rx \<and> plain s \<and> s \<noteq> [] \<longrightarrow>
      list_matching rx db uid (q\<lparr> q_search := Some s \<rparr>)
        = filter (\<lambda>t. doc_matches rx (build_query uid (q\<lparr> q_search := None \<rparr>)) t
                       \<and> search_hit s t) db
      \<and> (q_type q = None \<and> q_category q = None \<and> q_startDate q = None \<and> q_endDate q = None
           \<and> 1 \<le> page_of q \<and> 1 \<le> limit_of q \<longrightarrow>
          (\<exists>r. getTransactions rx ord srt db uid (q\<lparr> q_search := Some s \<rparr>) = Success r
             \<and> totalItems (pagination r)
                 = length (filter (\<lambda>t. user t = uid \<and> search_hit s t) db)
             \<and> data r = take (limit_of q) (drop ((page_of q - 1) * limit_of q)
                  (srt (sort_cmp ord (q_sortBy q) (q_sortOrder q))
                     (filter (\<lambda>t. user t = uid \<and> search_hit s t) db))))))
   \<and> getTransactions rx ord srt db uid (q\<lparr> q_search := Some [] \<rparr>)
       = getTransactions rx ord srt db uid (q\<lparr> q_search := None \<rparr>)"
proof (intro conjI impI)
  assume h: "literal_engine rx \<and> plain s \<and> s \<noteq> []"
  then have l: "literal_engine rx" and p: "plain s" and ne: "s \<noteq> []" by blast+
  show m: "list_matching rx db uid (q\<lparr> q_search := Some s \<rparr>)
        = filter (\<lambda>t. doc_matches rx (build_query uid (q\<lparr> q_search := None \<rparr>)) t
                       \<and> search_hit s t) db"
  proof -
    have "doc_matches rx (build_query uid (q\<lparr> q_search := Some s \<rparr>))
          = (\<lambda>t. doc_matches rx (build_query uid (q\<lparr> q_search := None \<rparr>)) t \<and> search_hit s t)"
      by (rule ext) (rule doc_matches_search[OF l p ne])
    then show ?thesis unfolding list_matching_def by (simp only:)
  qed
  assume o: "q_type q = None \<and> q_category q = None \<and> q_startDate q = None \<and> q_endDate q = None
           \<and> 1 \<le> page_of q \<and> 1 \<le> limit_of q"
  let ?q = "q\<lparr> q_search := Some s \<rparr>"
  let ?P = "\<lambda>t. user t = uid \<and> search_hit s t"
  have ok: "check_filter rx (build_query uid ?q) = None"
    using check_filter_search[OF l p ne] o by blast
  have pl: "page_of ?q = page_of q" "limit_of ?q = limit_of q"
    by (simp_all add: page_of_def limit_of_def)
  have pg: "1 \<le> page_of ?q" using o pl by simp
  have lm: "limit_of ?q \<noteq> 0" using o pl by simp
  have u: "\<And>t. doc_matches rx (build_query uid (q\<lparr> q_search := None \<rparr>)) t = (user t = uid)"
    using doc_matches_user_only o by blast
  have lmf: "list_matching rx db uid ?q = filter ?P db" using m u by simp
  have sm: "sorted_matching rx ord srt db uid ?q
            = srt (sort_cmp ord (q_sortBy q) (q_sortOrder q)) (filter ?P db)"
    unfolding sorted_matching_def lmf by (simp add: list_cmp_def)
  let ?r = "\<lparr> data = take (limit_of q) (drop ((page_of q - 1) * limit_of q)
                  (srt (sort_cmp ord (q_sortBy q) (q_sortOrder q)) (filter ?P db))),
               pagination =
                 \<lparr> currentPage = page_of q,
                   totalPages = ceil_div (length (filter ?P db)) (limit_of q),
                   totalItems = length (filter ?P db),
                   itemsPerPage = limit_of q,
                   hasNextPage = js_less (int (page_of q))
                       (ceil_div (length (filter ?P db)) (limit_of q)),
                   hasPrevPage = (page_of q > 1) \<rparr> \<rparr>"
  have "getTransactions rx ord srt db uid ?q = Success ?r"
    using getTransactions_success[OF ok pg, of ord srt db] lm unfolding sm lmf pl by (simp only: if_False)
  moreover have "totalItems (pagination ?r) = length (filter ?P db)" by simp
  moreover have "data ?r = take (limit_of q) (drop ((page_of q - 1) * limit_of q)
                  (srt (sort_cmp ord (q_sortBy q) (q_sortOrder q)) (filter ?P db)))" by simp
  ultimately show "\<exists>r. getTransactions rx ord srt db uid ?q = Success r
             \<and> totalItems (pagination r) = length (filter ?P db)
             \<and> data r = take (limit_of q) (drop ((page_of q - 1) * limit_of q)
                  (srt (sort_cmp ord (q_sortBy q) (q_sortOrder q)) (filter ?P db)))"
    by blast
next
  have "build_query uid (q\<lparr> q_search := Some [] \<rparr>) = build_query uid (q\<lparr> q_search := None \<rparr>)"
    by (simp add: build_query_def pattern_term_def)
  then show "getTransactions rx ord srt db uid (q\<lparr> q_search := Some [] \<rparr>)
       = getTransactions rx ord srt db uid (q\<lparr> q_search := None \<rparr>)"
    unfolding getTransactions_def by simp
qed

theorem search_contract_witness:
  "literal_engine dot_engine \<and> plain ''food'' \<and> ''food'' \<noteq> []
   \<and> list_matching dot_engine sample_db userA search_food = [T1, T4, T6]"
proof -
  have p: "plain ''food''" by (simp add: plain_def metachar_def)
  have f: "filter (\<lambda>t. doc_matches dot_engine
                 (build_query userA (no_params\<lparr> q_search := None \<rparr>)) t
               \<and> search_hit ''food'' t) sample_db = [T1, T4, T6]"
    by (simp add: doc_matches_def build_query_def type_term_def pattern_term_def no_params_def
        search_hit_def field_has_def ci_occurs_def lower_def sample_defs)
  from search_contract [where rx = dot_engine and s = "''food''" and db = sample_db
      and uid = userA and q = no_params] dot_engine_literal p f
  show ?thesis unfolding search_food_def by simp
qed

text \<open>
  Claim C10 as stated fails for a search string with a metacharacter: the search
  \<^verbatim>\<open>F.od\<close> returns T1, of category Food, in which \<^verbatim>\<open>F.od\<close> does not occur.
\<close>

theorem search_is_a_pattern:
  "\<not> search_hit ''F.od'' T1
   \<and> getTransactions dot_engine core_order sort_by [T1, T2] userA search_dot
       = Success \<lparr> data = [T1],
                   pagination = \<lparr> currentPage = 1, totalPages = Num 1, totalItems = 1,
                                  itemsPerPage = 10, hasNextPage = False, hasPrevPage = False \<rparr> \<rparr>"
  by (simp add: getTransactions_def find_page_def find_docs_def countDocuments_def
      check_filter_def skip_limit_def ceil_div_eval search_dot_def no_params_def
      build_query_def type_term_def pattern_term_def doc_matches_def rx_test_def sort_by_def
      sort_cmp_def core_order_def T1_def T2_def userA_def search_hit_def field_has_def engine_defs)

subsection \<open>Bulk delete\<close>

lemma sample_ids_valid:
  "hex_oid ''000000000000000000000001'' = Some ''000000000000000000000001''"
  "hex_oid ''000000000000000000000002'' = Some ''000000000000000000000002''"
  "hex_oid ''000000000000000000000005'' = Some ''000000000000000000000005''"
  "hex_oid ''ffffffffffffffffffffffff'' = Some ''ffffffffffffffffffffffff''"
  "hex_oid ''bbbbbbbbbbbbbbbbbbbbbbbb'' = Some ''bbbbbbbbbbbbbbbbbbbbbbbb''"
  "hex_oid ''not-an-id'' = None"
  by (simp_all add: hex_oid_def hex_digit_def lower_def)

lemma filter_length_all: "length (filter P xs) = length xs \<longleftrightarrow> list_all P xs"
  by (metis filter_id_conv length_filter_le filter_True list_all_iff length_filter_less
      nat_less_le)

lemma id_matches_owned:
  "id_matches cast \<lparr> i_ids = ids, i_user = Some uid \<rparr> t = (owned uid t \<and> listed cast ids t)"
  by (auto simp: id_matches_def owned_def listed_def)

text \<open>
  Claim C5, as the code has it. A non-empty id list with an id that is not valid is
  rejected as a whole, with status 400, and the store is unchanged. A non-empty list of
  valid ids succeeds: exactly the listed documents of the requesting user are deleted, and
  \<^verbatim>\<open>deletedCount\<close> is their number; a valid id that names no document of the user is passed
  over without an error.
\<close>

theorem bulk_delete_contract:
  "(ids \<noteq> [] \<and> list_all (isValid cast) ids \<longrightarrow>
      bulkDeleteTransactions cast db uid (Some ids)
        = (Success (length (filter (\<lambda>t. owned uid t \<and> listed cast ids t) db)),
           filter (\<lambda>t. \<not> (owned uid t \<and> listed cast ids t)) db))
   \<and> (ids \<noteq> [] \<and> \<not> list_all (isValid cast) ids \<longrightarrow>
      bulkDeleteTransactions cast db uid (Some ids)
        = (Failed 400 ''Some transaction IDs are invalid'', db))"
proof (intro conjI impI)
  assume h: "ids \<noteq> [] \<and> list_all (isValid cast) ids"
  then have f: "filter (isValid cast) ids = ids" by (simp add: list_all_iff)
  have m: "id_matches cast \<lparr> i_ids = ids, i_user = Some uid \<rparr>
           = (\<lambda>t. owned uid t \<and> listed cast ids t)"
    by (rule ext) (rule id_matches_owned)
  have "deleteMany cast \<lparr> i_ids = filter (isValid cast) ids, i_user = Some uid \<rparr> db
        = Inr (length (filter (\<lambda>t. owned uid t \<and> listed cast ids t) db),
               filter (\<lambda>t. \<not> (owned uid t \<and> listed cast ids t)) db)"
    using h unfolding deleteMany_def f m by simp
  then show "bulkDeleteTransactions cast db uid (Some ids)
        = (Success (length (filter (\<lambda>t. owned uid t \<and> listed cast ids t) db)),
           filter (\<lambda>t. \<not> (owned uid t \<and> listed cast ids t)) db)"
    using h f unfolding bulkDeleteTransactions_def Let_def by simp
next
  assume h: "ids \<noteq> [] \<and> \<not> list_all (isValid cast) ids"
  then have "length (filter (isValid cast) ids) \<noteq> length ids"
    using filter_length_all[of "isValid cast" ids] by blast
  then show "bulkDeleteTransactions cast db uid (Some ids)
        = (Failed 400 ''Some transaction IDs are invalid'', db)"
    using h unfolding bulkDeleteTransactions_def Let_def by simp
qed

theorem bulk_delete_contract_witness:
  "[txn_id T1, txn_id T5, txn_id T2, ''ffffffffffffffffffffffff''] \<noteq> []
   \<and> list_all (isValid hex_oid) [txn_id T1, txn_id T5, txn_id T2, ''ffffffffffffffffffffffff'']
   \<and> bulkDeleteTransactions hex_oid sample_db userA
         (Some [txn_id T1, txn_id T5, txn_id T2, ''ffffffffffffffffffffffff''])
       = (Success 2, [T3, T4, T5, T6])
   \<and> [txn_id T3, ''12345''] \<noteq> [] \<and> \<not> list_all (isValid hex_oid) [txn_id T3, ''12345'']
   \<and> bulkDeleteTransactions hex_oid sample_db userA (Some [txn_id T3, ''12345''])
       = (Failed 400 ''Some transaction IDs are invalid'', sample_db)"
proof -
  let ?ids = "[txn_id T1, txn_id T5, txn_id T2, ''ffffffffffffffffffffffff'']"
  let ?bad = "[txn_id T3, ''12345'']"
  have v: "list_all (isValid hex_oid) ?ids"
    by (simp add: isValid_def sample_ids_valid T1_def T2_def T5_def)
  have n: "\<not> list_all (isValid hex_oid) ?bad"
    by (simp add: isValid_def hex_oid_def)
  have a: "filter (\<lambda>t. owned userA t \<and> listed hex_oid ?ids t) sample_db = [T1, T2]"
    by (simp add: owned_def listed_def sample_ids_valid sample_defs)
  have b: "filter (\<lambda>t. \<not> (owned userA t \<and> listed hex_oid ?ids t)) sample_db = [T3, T4, T5, T6]"
    by (simp add: owned_def listed_def sample_ids_valid sample_defs)
  from bulk_delete_contract [of ?ids hex_oid sample_db userA] v
  have "bulkDeleteTransactions hex_oid sample_db userA (Some ?ids)
        = (Success (length (filter (\<lambda>t. owned userA t \<and> listed hex_oid ?ids t) sample_db)),
           filter (\<lambda>t. \<not> (owned userA t \<and> listed hex_oid ?ids t)) sample_db)"
    by blast
  then have 1: "bulkDeleteTransactions hex_oid sample_db userA (Some ?ids)
       = (Success 2, [T3, T4, T5, T6])"
    unfolding a b by simp
  from bulk_delete_contract [of ?bad hex_oid sample_db userA] n
  have 2: "bulkDeleteTransactions hex_oid sample_db userA (Some ?bad)
        = (Failed 400 ''Some transaction IDs are invalid'', sample_db)"
    by blast
  from v n 1 2 show ?thesis by simp
qed

text \<open>
  Claim C5 as stated fails: with one id that is not valid between the ids of T1 and T2,
  both owned by the requesting user, the request is rejected with status 400 and neither
  document is deleted.
\<close>

theorem bulk_delete_rejects_invalid_id:
  "\<not> isValid hex_oid ''not-an-id'' \<and> isValid hex_oid (txn_id T1) \<and> isValid hex_oid (txn_id T2)
   \<and> user T1 = userA \<and> user T2 = userA
   \<and> bulkDeleteTransactions hex_oid [T1, T2] userA (Some [txn_id T1, ''not-an-id'', txn_id T2])
       = (Failed 400 ''Some transaction IDs are invalid'', [T1, T2])"
  by (simp add: bulkDeleteTransactions_def isValid_def sample_ids_valid T1_def T2_def)

subsection \<open>The owner of a transaction under an update\<close>

text \<open>
  Claim C2 fails on the code: the update passes \<^verbatim>\<open>req.body\<close> whole to
  \<^verbatim>\<open>findByIdAndUpdate\<close>, and the \<^verbatim>\<open>user\<close> path of the schema is an ordinary path. User A
  updates T1 with a body that names user B as the owner: the reply is a success, and the
  stored T1 belongs to user B.
\<close>

theorem update_reassigns_owner:
  "user T1 = userA \<and> validate_update reassign = []
   \<and> updateTransaction hex_oid [T1, T2] userA (txn_id T1) reassign
       = (Success (Some (T1\<lparr> user := userB \<rparr>)), [T1\<lparr> user := userB \<rparr>, T2])
   \<and> user (T1\<lparr> user := userB \<rparr>) \<noteq> userA"
  by (simp add: updateTransaction_def findOne_def findByIdAndUpdate_def owned_by_id_def by_id_def
      id_matches_def isValid_def sample_ids_valid validate_update_def apply_update_def
      reassign_def empty_body_def T1_def T2_def userA_def userB_def trim_def white_def)

subsection \<open>Isolation of users\<close>

lemma update_first_rel: "list_all2 (\<lambda>t t'. \<not> P t \<longrightarrow> t' = t) xs (update_first P f xs)"
proof (induction xs)
  case Nil
  then show ?case by simp
next
  case (Cons x xs)
  have "list_all2 (\<lambda>t t'. \<not> P t \<longrightarrow> t' = t) xs xs" by (simp add: list_all2_same)
  with Cons show ?case by simp
qed

lemma remove_first_filter:
  "(\<And>t. t \<in> set xs \<Longrightarrow> P t \<Longrightarrow> \<not> Q t) \<Longrightarrow> filter Q (remove_first P xs) = filter Q xs"
  by (induction xs) auto

lemma findOne_owned:
  assumes "findOne cast (owned_by_id id0 uid) db = Inr (Some found)"
  shows "isValid cast id0" "found \<in> set db" "user found = uid"
    "cast id0 = Some (txn_id found)"
proof -
  from assms have v: "isValid cast id0"
    and f: "find (id_matches cast (owned_by_id id0 uid)) db = Some found"
    by (auto simp: findOne_def owned_by_id_def split: if_splits)
  from f have m: "id_matches cast (owned_by_id id0 uid) found" and i: "found \<in> set db"
    by (auto simp: find_Some_iff)
  show "isValid cast id0" by (rule v)
  show "found \<in> set db" by (rule i)
  from m show "user found = uid" by (simp add: id_matches_def owned_by_id_def)
  from m show "cast id0 = Some (txn_id found)"
    by (simp add: id_matches_def owned_by_id_def)
qed

text \<open>Ids being unique, the call by id alone reaches the document the guard has found.\<close>

lemma by_id_hits_owned:
  assumes d: "distinct (map txn_id db)"
    and f: "findOne cast (owned_by_id id0 uid) db = Inr (Some found)"
    and t: "t \<in> set db" and m: "id_matches cast (by_id id0) t"
  shows "owned uid t"
proof -
  from m have "cast id0 = Some (txn_id t)" by (simp add: id_matches_def by_id_def)
  with findOne_owned(4)[OF f] have "txn_id t = txn_id found" by simp
  moreover have "inj_on txn_id (set db)" using d by (simp add: distinct_map)
  ultimately have "t = found" using t findOne_owned(2)[OF f] by (auto dest: inj_onD)
  with findOne_owned(3)[OF f] show ?thesis by (simp add: owned_def)
qed

lemma update_keeps_others:
  assumes d: "distinct (map txn_id db)"
  shows "list_all2 (\<lambda>t t'. \<not> owned uid t \<longrightarrow> t' = t) db
           (snd (updateTransaction cast db uid id0 b))"
proof -
  have same: "list_all2 (\<lambda>t t'. \<not> owned uid t \<longrightarrow> t' = t) db db" by (simp add: list_all2_same)
  show ?thesis
  proof (cases "findOne cast (owned_by_id id0 uid) db")
    case (Inl e)
    then show ?thesis using same by (simp add: updateTransaction_def)
  next
    case (Inr r)
    show ?thesis
    proof (cases r)
      case None
      with Inr show ?thesis using same by (simp add: updateTransaction_def)
    next
      case (Some found)
      with Inr have f: "findOne cast (owned_by_id id0 uid) db = Inr (Some found)" by simp
      have "list_all2 (\<lambda>t t'. \<not> id_matches cast (by_id id0) t \<longrightarrow> t' = t) db
              (update_first (id_matches cast (by_id id0)) (apply_update cast b) db)"
        by (rule update_first_rel)
      then have k: "list_all2 (\<lambda>t t'. \<not> owned uid t \<longrightarrow> t' = t) db
              (update_first (id_matches cast (by_id id0)) (apply_update cast b) db)"
      proof (rule list.rel_mono_strong)
        fix t t' assume "t \<in> set db" and h: "\<not> id_matches cast (by_id id0) t \<longrightarrow> t' = t"
        with by_id_hits_owned[OF d f] show "\<not> owned uid t \<longrightarrow> t' = t" by blast
      qed
      show ?thesis
      proof (cases "findByIdAndUpdate cast id0 b db")
        case (Inl e)
        then show ?thesis using f same
          by (cases e) (simp_all add: updateTransaction_def)
      next
        case (Inr res)
        then have "snd res = update_first (id_matches cast (by_id id0)) (apply_update cast b) db"
          by (auto simp: findByIdAndUpdate_def split: if_splits)
        with Inr f k show ?thesis
          by (cases res) (simp add: updateTransaction_def)
      qed
    qed
  qed
qed

lemma update_returns_own:
  assumes d: "distinct (map txn_id db)"
    and r: "fst (updateTransaction cast db uid id0 b) = Success (Some t')"
  shows "\<exists>t\<in>set db. owned uid t \<and> t' = apply_update cast b t"
proof -
  from r obtain found where f: "findOne cast (owned_by_id id0 uid) db = Inr (Some found)"
    by (auto simp: updateTransaction_def split: sum.splits option.splits)
  from r f obtain res where u: "findByIdAndUpdate cast id0 b db = Inr res" and "fst res = Some t'"
    by (auto simp: updateTransaction_def split: sum.splits store_error.splits prod.splits)
  then have "map_option (apply_update cast b) (find (id_matches cast (by_id id0)) db) = Some t'"
    by (auto simp: findByIdAndUpdate_def split: if_splits)
  then obtain t where t: "find (id_matches cast (by_id id0)) db = Some t"
    and e: "t' = apply_update cast b t" by auto
  from t have "t \<in> set db" "id_matches cast (by_id id0) t" by (auto simp: find_Some_iff)
  with by_id_hits_owned[OF d f] e show ?thesis by blast
qed

lemma delete_keeps_others:
  assumes d: "distinct (map txn_id db)"
  shows "filter (\<lambda>t. \<not> owned uid t) (snd (deleteTransaction cast db uid id0))
         = filter (\<lambda>t. \<not> owned uid t) db"
proof (cases "findOne cast (owned_by_id id0 uid) db")
  case (Inl e)
  then show ?thesis by (simp add: deleteTransaction_def)
next
  case (Inr r)
  show ?thesis
  proof (cases r)
    case None
    with Inr show ?thesis by (simp add: deleteTransaction_def)
  next
    case (Some found)
    with Inr have f: "findOne cast (owned_by_id id0 uid) db = Inr (Some found)" by simp
    have rf: "filter (\<lambda>t. \<not> owned uid t) (remove_first (id_matches cast (by_id id0)) db)
         = filter (\<lambda>t. \<not> owned uid t) db"
      using by_id_hits_owned[OF d f] by (intro remove_first_filter) blast
    show ?thesis
    proof (cases "findByIdAndDelete cast id0 db")
      case (Inl e)
      then show ?thesis using f by (simp add: deleteTransaction_def)
    next
      case (Inr res)
      then have "snd res = remove_first (id_matches cast (by_id id0)) db"
        by (auto simp: findByIdAndDelete_def split: if_splits)
      with Inr f rf show ?thesis
        by (cases res) (simp add: deleteTransaction_def)
    qed
  qed
qed

lemma bulk_delete_keeps_others:
  "filter (\<lambda>t. \<not> owned uid t) (snd (bulkDeleteTransactions cast db uid transactionIds))
     = filter (\<lambda>t. \<not> owned uid t) db"
proof -
  have dm: "\<And>ids res. deleteMany cast \<lparr> i_ids = ids, i_user = Some uid \<rparr> db = Inr res \<Longrightarrow>
      filter (\<lambda>t. \<not> owned uid t) (snd res) = filter (\<lambda>t. \<not> owned uid t) db"
    by (auto simp: deleteMany_def id_matches_owned split: if_splits intro: filter_cong)
  show ?thesis
  proof (cases transactionIds)
    case None
    then show ?thesis by (simp add: bulkDeleteTransactions_def)
  next
    case (Some ids)
    show ?thesis
    proof (cases "deleteMany cast \<lparr> i_ids = filter (isValid cast) ids, i_user = Some uid \<rparr> db")
      case (Inl e)
      with Some show ?thesis by (simp add: bulkDeleteTransactions_def Let_def)
    next
      case (Inr res)
      from dm[OF Inr] Inr Some show ?thesis
        by (cases res) (simp add: bulkDeleteTransactions_def Let_def)
    qed
  qed
qed

lemma doc_matches_owned: "doc_matches rx (build_query uid q) t \<Longrightarrow> owned uid t"
  by (simp add: doc_matches_def build_query_def owned_def)

lemma filter_owned_first:
  "(\<And>t. P t \<Longrightarrow> owned uid t) \<Longrightarrow> filter P (filter (owned uid) db) = filter P db"
  by (induction db) auto

lemma getTransactions_own:
  "getTransactions rx ord srt (filter (owned uid) db) uid q = getTransactions rx ord srt db uid q"
proof -
  have "filter (doc_matches rx (build_query uid q)) (filter (owned uid) db)
        = filter (doc_matches rx (build_query uid q)) db"
    by (rule filter_owned_first) (rule doc_matches_owned)
  then have fd: "find_docs rx (build_query uid q) (filter (owned uid) db)
                 = find_docs rx (build_query uid q) db"
    and cd: "countDocuments rx (build_query uid q) (filter (owned uid) db)
                 = countDocuments rx (build_query uid q) db"
    by (simp_all only: find_docs_def countDocuments_def)
  show ?thesis
    unfolding getTransactions_def find_page_def Let_def by (simp only: fd cd)
qed

lemma skip_limit_subset: "skip_limit k l xs = Inr ys \<Longrightarrow> set ys \<subseteq> set xs"
  by (auto simp: skip_limit_def split: if_splits dest: in_set_takeD in_set_dropD)

lemma getTransactions_data_owned:
  assumes st: "sorts srt"
    and r: "getTransactions rx ord srt db uid q = Success r" and t: "t \<in> set (data r)"
  shows "user t = uid \<and> t \<in> set db"
proof -
  let ?M = "filter (doc_matches rx (build_query uid q)) db"
  from r obtain docs where
    p: "find_page rx srt (build_query uid q) (sort_cmp ord (q_sortBy q) (q_sortOrder q))
          ((int (case q_page q of None \<Rightarrow> 1 | Some n \<Rightarrow> n) - 1)
             * int (case q_limit q of None \<Rightarrow> 10 | Some n \<Rightarrow> n))
          (case q_limit q of None \<Rightarrow> 10 | Some n \<Rightarrow> n) db = Inr docs"
    and d: "data r = docs"
    by (auto simp: getTransactions_def Let_def split: sum.splits)
  from p obtain k l where
    "skip_limit k l (srt (sort_cmp ord (q_sortBy q) (q_sortOrder q)) ?M) = Inr docs"
    by (auto simp: find_page_def find_docs_def split: option.splits)
  then have "set docs \<subseteq> set (srt (sort_cmp ord (q_sortBy q) (q_sortOrder q)) ?M)"
    by (rule skip_limit_subset)
  moreover have "set (srt (sort_cmp ord (q_sortBy q) (q_sortOrder q)) ?M) = set ?M"
    using st unfolding sorts_def by (metis set_mset_mset)
  ultimately have "doc_matches rx (build_query uid q) t \<and> t \<in> set db" using t d by auto
  then show ?thesis using doc_matches_owned[of rx uid q t] by (simp add: owned_def)
qed

lemma stage_own:
  "m_user m = uid \<Longrightarrow> filter (stage_matches m) (filter (owned uid) db) = filter (stage_matches m) db"
  by (rule filter_owned_first) (simp add: stage_matches_def owned_def)

lemma getTransaction_owned:
  "getTransaction cast db uid id0 = Success t \<Longrightarrow> user t = uid \<and> t \<in> set db"
proof -
  assume "getTransaction cast db uid id0 = Success t"
  then have "findOne cast (owned_by_id id0 uid) db = Inr (Some t)"
    by (auto simp: getTransaction_def split: sum.splits option.splits)
  from findOne_owned(2,3)[OF this] show ?thesis by simp
qed

lemma summary_own:
  "getTransactionSummary sub (filter (owned uid) db) uid sd ed
     = getTransactionSummary sub db uid sd ed"
proof -
  have "filter (stage_matches (summary_stage uid sd ed)) (filter (owned uid) db)
        = filter (stage_matches (summary_stage uid sd ed)) db"
    by (rule stage_own) (simp add: summary_stage_def)
  then show ?thesis
    unfolding getTransactionSummary_def Transaction_getUserSummary_def by (simp only:)
qed

lemma breakdown_own:
  "getCategoryBreakdown (filter (owned uid) db) uid ty sd ed = getCategoryBreakdown db uid ty sd ed"
proof -
  have "filter (stage_matches (breakdown_stage uid ty sd ed)) (filter (owned uid) db)
        = filter (stage_matches (breakdown_stage uid ty sd ed)) db"
    by (rule stage_own) (simp add: breakdown_stage_def)
  then show ?thesis
    unfolding getCategoryBreakdown_def Transaction_getCategoryBreakdown_def by (simp only:)
qed

lemma trends_own:
  "getMonthlyTrends cal (filter (owned uid) db) uid months = getMonthlyTrends cal db uid months"
proof -
  have "\<And>d. filter (trend_matches uid d) (filter (owned uid) db) = filter (trend_matches uid d) db"
    by (rule filter_owned_first) (simp add: trend_matches_def owned_def)
  then show ?thesis
    unfolding getMonthlyTrends_def Transaction_getMonthlyTrends_def by (simp only:)
qed

text \<open>
  Claim C1, as the code has it. The filters of the list, of the single fetch, of the guard
  of update and delete and of the pipelines carry the id of the requesting user. For every
  store: the documents a list returns, under any sort of the store, are documents of the
  user, and the reply is the one computed over the user's documents alone; so are the
  replies of the three pipelines; the document of a single fetch is the user's. Update and
  delete write through a store call by id alone, after the guard: with unique ids an update
  leaves every document of another user in its place and unchanged, and the document it
  returns is an update of a document of the user; a delete and a bulk delete leave the
  documents of the other users as they are.
\<close>

theorem user_isolation:
  "f_user (build_query uid q) = uid
   \<and> i_user (owned_by_id id0 uid) = Some uid
   \<and> m_user (summary_stage uid sd ed) = uid
   \<and> m_user (breakdown_stage uid ty sd ed) = uid
   \<and> (sorts srt \<longrightarrow>
        (\<forall>r. getTransactions rx ord srt db uid q = Success r
          \<longrightarrow> (\<forall>t\<in>set (data r). user t = uid \<and> t \<in> set db)))
   \<and> getTransactions rx ord srt (filter (owned uid) db) uid q
       = getTransactions rx ord srt db uid q
   \<and> (\<forall>t. getTransaction cast db uid id0 = Success t \<longrightarrow> user t = uid \<and> t \<in> set db)
   \<and> getTransactionSummary sub (filter (owned uid) db) uid sd ed
       = getTransactionSummary sub db uid sd ed
   \<and> getCategoryBreakdown (filter (owned uid) db) uid ty sd ed
       = getCategoryBreakdown db uid ty sd ed
   \<and> getMonthlyTrends cal (filter (owned uid) db) uid months
       = getMonthlyTrends cal db uid months
   \<and> (distinct (map txn_id db) \<longrightarrow>
        list_all2 (\<lambda>t t'. \<not> owned uid t \<longrightarrow> t' = t) db
          (snd (updateTransaction cast db uid id0 b))
        \<and> (\<forall>t'. fst (updateTransaction cast db uid id0 b) = Success (Some t')
              \<longrightarrow> (\<exists>t\<in>set db. owned uid t \<and> t' = apply_update cast b t))
        \<and> filter (\<lambda>t. \<not> owned uid t) (snd (deleteTransaction cast db uid id0))
            = filter (\<lambda>t. \<not> owned uid t) db)
   \<and> filter (\<lambda>t. \<not> owned uid t) (snd (bulkDeleteTransactions cast db uid transactionIds))
       = filter (\<lambda>t. \<not> owned uid t) db"
proof (intro conjI allI impI ballI)
  show "f_user (build_query uid q) = uid" by (simp add: build_query_def)
  show "i_user (owned_by_id id0 uid) = Some uid" by (simp add: owned_by_id_def)
  show "m_user (summary_stage uid sd ed) = uid" by (simp add: summary_stage_def)
  show "m_user (breakdown_stage uid ty sd ed) = uid" by (simp add: breakdown_stage_def)
  show "getTransactions rx ord srt (filter (owned uid) db) uid q
       = getTransactions rx ord srt db uid q"
    by (rule getTransactions_own)
  show "getTransactionSummary sub (filter (owned uid) db) uid sd ed
       = getTransactionSummary sub db uid sd ed" by (rule summary_own)
  show "getCategoryBreakdown (filter (owned uid) db) uid ty sd ed
       = getCategoryBreakdown db uid ty sd ed" by (rule breakdown_own)
  show "getMonthlyTrends cal (filter (owned uid) db) uid months
       = getMonthlyTrends cal db uid months" by (rule trends_own)
  show "filter (\<lambda>t. \<not> owned uid t) (snd (bulkDeleteTransactions cast db uid transactionIds))
       = filter (\<lambda>t. \<not> owned uid t) db" by (rule bulk_delete_keeps_others)
next
  fix r t assume "sorts srt" "getTransactions rx ord srt db uid q = Success r" "t \<in> set (data r)"
  then have 1: "user t = uid \<and> t \<in> set db" by (rule getTransactions_data_owned)
  from 1 show "user t = uid" by simp
  from 1 show "t \<in> set db" by simp
next
  fix t assume "getTransaction cast db uid id0 = Success t"
  then have 1: "user t = uid \<and> t \<in> set db" by (rule getTransaction_owned)
  from 1 show "user t = uid" by simp
  from 1 show "t \<in> set db" by simp
next
  assume "distinct (map txn_id db)"
  then show "list_all2 (\<lambda>t t'. \<not> owned uid t \<longrightarrow> t' = t) db
          (snd (updateTransaction cast db uid id0 b))" by (rule update_keeps_others)
next
  fix t' assume "distinct (map txn_id db)"
    "fst (updateTransaction cast db uid id0 b) = Success (Some t')"
  then show "\<exists>t\<in>set db. owned uid t \<and> t' = apply_update cast b t" by (rule update_returns_own)
next
  assume "distinct (map txn_id db)"
  then show "filter (\<lambda>t. \<not> owned uid t) (snd (deleteTransaction cast db uid id0))
          = filter (\<lambda>t. \<not> owned uid t) db" by (rule delete_keeps_others)
qed

lemma own_listing:
  "getTransactions dot_engine core_order sort_by sample_db userA no_params
     = Success \<lparr> data = [T4, T3, T2, T1, T6],
                 pagination = \<lparr> currentPage = 1, totalPages = Num 1, totalItems = 5,
                                itemsPerPage = 10, hasNextPage = False, hasPrevPage = False \<rparr> \<rparr>"
proof -
  have ok: "check_filter dot_engine (build_query userA no_params) = None"
    by (simp add: check_filter_def build_query_def pattern_term_def no_params_def)
  have pl: "page_of no_params = 1" "limit_of no_params = 10"
    by (simp_all add: page_of_def limit_of_def no_params_def)
  have pg: "1 \<le> page_of no_params" using pl by simp
  have m: "list_matching dot_engine sample_db userA no_params = [T1, T2, T3, T4, T6]"
    by (simp add: list_matching_def build_query_def type_term_def
      pattern_term_def doc_matches_def no_params_def sample_defs)
  have s: "sorted_matching dot_engine core_order sort_by sample_db userA no_params
     = [T4, T3, T2, T1, T6]"
    unfolding sorted_matching_def m
    by (simp add: sort_by_def list_cmp_def sort_cmp_def core_order_def no_params_def sample_defs)
  show ?thesis
    using getTransactions_success[OF ok pg, of core_order sort_by sample_db]
    unfolding s pl m
    by (simp add: ceil_div_eval)
qed

lemma sample_delete:
  "deleteTransaction hex_oid sample_db userA (txn_id T1) = (Success (), [T2, T3, T4, T5, T6])"
  by (simp add: deleteTransaction_def findOne_def findByIdAndDelete_def owned_by_id_def
      by_id_def id_matches_def isValid_def sample_ids_valid sample_defs)

lemma sample_foreign_update:
  "updateTransaction hex_oid sample_db userB (txn_id T1) reassign
     = (Failed 404 ''Transaction not found'', sample_db)"
  by (simp add: updateTransaction_def findOne_def owned_by_id_def
      id_matches_def isValid_def sample_ids_valid sample_defs)

theorem user_isolation_witness:
  "sorts sort_by \<and> distinct (map txn_id sample_db)
   \<and> getTransactions dot_engine core_order sort_by sample_db userA no_params
       = Success \<lparr> data = [T4, T3, T2, T1, T6],
                   pagination = \<lparr> currentPage = 1, totalPages = Num 1, totalItems = 5,
                                  itemsPerPage = 10, hasNextPage = False, hasPrevPage = False \<rparr> \<rparr>
   \<and> list_all (\<lambda>t. user t = userA \<and> t \<in> set sample_db) [T4, T3, T2, T1, T6]
   \<and> getTransaction hex_oid sample_db userA (txn_id T1) = Success T1
   \<and> user T1 = userA
   \<and> getTransaction hex_oid sample_db userB (txn_id T1) = Failed 404 ''Transaction not found''
   \<and> updateTransaction hex_oid sample_db userB (txn_id T1) reassign
       = (Failed 404 ''Transaction not found'', sample_db)
   \<and> deleteTransaction hex_oid sample_db userA (txn_id T1) = (Success (), [T2, T3, T4, T5, T6])
   \<and> filter (\<lambda>t. \<not> owned userA t) [T2, T3, T4, T5, T6] = [T5]
   \<and> filter (\<lambda>t. \<not> owned userA t) sample_db = [T5]"
proof -
  have d: "distinct (map txn_id sample_db)" by (simp add: sample_defs)
  have g1: "getTransaction hex_oid sample_db userA (txn_id T1) = Success T1"
    by (simp add: getTransaction_def findOne_def owned_by_id_def
      id_matches_def isValid_def sample_ids_valid sample_defs)
  have g2: "getTransaction hex_oid sample_db userB (txn_id T1)
      = Failed 404 ''Transaction not found''"
    by (simp add: getTransaction_def findOne_def owned_by_id_def
      id_matches_def isValid_def sample_ids_valid sample_defs)
  have f: "filter (\<lambda>t. \<not> owned userA t) sample_db = [T5]"
    by (simp add: owned_def sample_defs)
  note u = user_isolation [where uid = userA and q = no_params and ?id0.0 = "txn_id T1"
      and srt = sort_by and rx = dot_engine and ord = core_order and db = sample_db
      and cast = hex_oid]
  from u sorts_sort_by own_listing
  have "\<forall>t\<in>set [T4, T3, T2, T1, T6]. user t = userA \<and> t \<in> set sample_db"
    by (metis list_reply.select_convs(1))
  then have l: "list_all (\<lambda>t. user t = userA \<and> t \<in> set sample_db) [T4, T3, T2, T1, T6]"
    by (simp only: list_all_iff)
  from u g1 have o: "user T1 = userA" by blast
  from u d have "filter (\<lambda>t. \<not> owned userA t) (snd (deleteTransaction hex_oid sample_db userA (txn_id T1)))
       = filter (\<lambda>t. \<not> owned userA t) sample_db" by blast
  then have k: "filter (\<lambda>t. \<not> owned userA t) [T2, T3, T4, T5, T6] = [T5]"
    unfolding sample_delete f by simp
  show ?thesis
    by (intro conjI sorts_sort_by d own_listing l g1 o g2 sample_foreign_update sample_delete k f)
qed

text \<open>
  Claim C1 as stated fails in two places. The store calls that write, after the guard,
  carry no user: \<^verbatim>\<open>findByIdAndDelete(id)\<close> with the id of T5 removes T5, whoever asks. And
  a transaction that an update returns need not belong to the requesting user: user A's
  update of T1 with a body that names user B returns T1 as a document of user B.
\<close>

theorem write_by_id_is_unscoped:
  "i_user (by_id (txn_id T5)) = None \<and> user T5 = userB \<and> userB \<noteq> userA
   \<and> findByIdAndDelete hex_oid (txn_id T5) [T1, T5] = Inr (Some T5, [T1])
   \<and> fst (updateTransaction hex_oid [T1, T5] userA (txn_id T1) reassign)
       = Success (Some (T1\<lparr> user := userB \<rparr>))
   \<and> user (T1\<lparr> user := userB \<rparr>) \<noteq> userA"
  by (simp add: by_id_def findByIdAndDelete_def id_matches_def isValid_def sample_ids_valid
      updateTransaction_def findOne_def findByIdAndUpdate_def owned_by_id_def
      validate_update_def apply_update_def reassign_def empty_body_def trim_def white_def
      T1_def T5_def userA_def userB_def)

end
